theory Spec2Isabelle
  imports Complex_Main "HOL-Library.Sublist"
begin

section \<open>Response texts and the three patterns\<close>

text \<open>
  A response text is a \<^typ>\<open>string\<close>: the UTF-8 bytes of the Python \<open>str\<close>. On ASCII text
  the model is exact. A code point beyond ASCII is several bytes, all above 127; none of them
  is a newline, a digit or a letter of the patterns, so \<open>.\<close> steps over them and the literals
  and \<open>\d\<close> never match inside them. (Python's \<open>\d\<close> also accepts the decimal digits of other
  scripts and \<open>re.I\<close> folds a few letters beyond ASCII onto \<open>s\<close> and \<open>i\<close>; texts with those
  are outside the model.)

  The patterns of \<open>B_m.py\<close> (lines 43-45) and \<open>B_m2.py\<close> (lines 35-37) are compiled with
  \<open>re.I\<close>. They are embedded as syntax trees and run by a backtracking matcher that returns
  every way to match, best first, the order in which Python's engine tries them.
\<close>

datatype cls = Digit | Dot

datatype re =
    Eps
  | Lit char
  | Cat re re
  | Alt re re
  | Opt re
  | Plus cls
  | Lazy_plus cls
  | Grp nat re

type_synonym groups = "string option list"

definition ascii_lower :: "char \<Rightarrow> char" where
  "ascii_lower c =
     (let n = (of_char c :: nat) in if 65 \<le> n \<and> n \<le> 90 then char_of (n + 32) else c)"

definition is_digit :: "char \<Rightarrow> bool" where
  "is_digit c = (let n = (of_char c :: nat) in 48 \<le> n \<and> n \<le> 57)"

fun cls_ok :: "cls \<Rightarrow> char \<Rightarrow> bool" where
  "cls_ok Digit c = is_digit c"
| "cls_ok Dot c = (c \<noteq> CHR 0x0A)"

text \<open>\<open>x+\<close> on a character class: the remainders after one or more characters, longest run
  first; \<open>x+?\<close>: shortest run first.\<close>

fun rep_greedy :: "(char \<Rightarrow> bool) \<Rightarrow> string \<Rightarrow> string list" where
  "rep_greedy p [] = []"
| "rep_greedy p (x # xs) = (if p x then rep_greedy p xs @ [xs] else [])"

fun rep_lazy :: "(char \<Rightarrow> bool) \<Rightarrow> string \<Rightarrow> string list" where
  "rep_lazy p [] = []"
| "rep_lazy p (x # xs) = (if p x then xs # rep_lazy p xs else [])"

text \<open>The matcher: from the rest of the text and the groups captured so far, every
  (rest, groups) a match of the pattern can leave, in the engine's order of preference.
  \<open>Grp i\<close> stores the matched substring at index \<open>i\<close> of the tuple \<open>groups()\<close> returns.\<close>

fun matches :: "re \<Rightarrow> string \<times> groups \<Rightarrow> (string \<times> groups) list" where
  "matches Eps sg = [sg]"
| "matches (Lit c) (s, g) =
     (case s of [] \<Rightarrow> []
      | x # xs \<Rightarrow> if ascii_lower x = ascii_lower c then [(xs, g)] else [])"
| "matches (Cat a b) sg = concat (map (matches b) (matches a sg))"
| "matches (Alt a b) sg = matches a sg @ matches b sg"
| "matches (Opt a) sg = matches a sg @ [sg]"
| "matches (Plus k) (s, g) = map (\<lambda>r. (r, g)) (rep_greedy (cls_ok k) s)"
| "matches (Lazy_plus k) (s, g) = map (\<lambda>r. (r, g)) (rep_lazy (cls_ok k) s)"
| "matches (Grp i a) (s, g) =
     map (\<lambda>(r, h). (r, h[i := Some (take (length s - length r) s)])) (matches a (s, g))"

text \<open>\<open>pattern.search(text)\<close>: the best match at the leftmost position that has one; the
  result is the tuple \<open>groups()\<close> of the match object, \<open>None\<close> when nothing matches.\<close>

fun search :: "re \<Rightarrow> nat \<Rightarrow> string \<Rightarrow> groups option" where
  "search r n [] = (case matches r ([], replicate n None) of [] \<Rightarrow> None | (_, g) # _ \<Rightarrow> Some g)"
| "search r n (x # xs) =
     (case matches r (x # xs, replicate n None) of [] \<Rightarrow> search r n xs | (_, g) # _ \<Rightarrow> Some g)"

definition seq :: "re list \<Rightarrow> re" where
  "seq rs = foldr Cat rs Eps"

definition word :: "string \<Rightarrow> re" where
  "word w = seq (map Lit w)"

definition RE_BERRIES :: re where
  "RE_BERRIES =
     Alt (seq [word ''discovered '', Grp 0 (Plus Digit), word '' Berries''])
    (Alt (seq [word ''You gained '', Grp 1 (Plus Digit), word '' Berries''])
         (seq [word ''Berries: '', Grp 2 (Plus Digit)]))"

definition RE_CRYSTALS :: re where
  "RE_CRYSTALS =
     Alt (seq [Grp 0 (Plus Digit), word '' Crystals''])
         (seq [word ''crystal'', Opt (Lit CHR ''s''), Opt (Lit CHR '':''), Lit CHR '' '',
               Grp 1 (Plus Digit)])"

definition RE_WAIFU :: re where
  "RE_WAIFU =
     Alt (seq [word ''got '', Opt (Alt (word ''a '') (word ''an '')),
               Grp 0 (seq [Lazy_plus Dot, word '' Waifu''])])
         (seq [word ''You obtained '', Grp 1 (seq [Lazy_plus Dot, word '' Waifu''])])"

text \<open>\<open>next((g for g in m.groups() if g), None)\<close>: the first group that is neither \<open>None\<close>
  nor empty.\<close>

fun first_truthy :: "groups \<Rightarrow> string option" where
  "first_truthy [] = None"
| "first_truthy (None # gs) = first_truthy gs"
| "first_truthy (Some s # gs) = (if s \<noteq> [] then Some s else first_truthy gs)"


section \<open>Summary, events and the log\<close>

text \<open>
  The summary is the dict \<open>{'berries_total', 'crystals_total', 'waifus', 'events'}\<close> of
  \<open>Miner.__init__\<close>. An event is a dict whose \<open>'type'\<close> is \<open>'berries'\<close>, \<open>'crystals'\<close> or
  \<open>'waifu'\<close>; its other entries are the time stamp, the amount or the name, and the source text.
  An entry of \<open>'waifus'\<close> holds the time stamp, the name and the text.
\<close>

datatype event =
    Berries_event string int string
  | Crystals_event string int string
  | Waifu_event string string string

record waifu_entry =
  w_time :: string
  w_name :: string
  w_text :: string

record summary =
  berries_total :: int
  crystals_total :: int
  waifus :: "waifu_entry list"
  events :: "event list"

text \<open>What the code can raise. \<open>Transport_failure\<close> stands for any exception of the transport
  library that is not an \<open>RPCError\<close> (a \<open>ConnectionError\<close> of a lost connection, for one).\<close>

datatype exn = ValueError | KeyError | RuntimeError | CancelledError | RPCError | Transport_failure

text \<open>A line of the logger, by the call that writes it and the values it formats; the time
  prefix of a line is left out.\<close>

datatype log_line =
    Parsed_berries string int
  | Parsed_crystals string int
  | Obtained_waifu string
  | Got_waifu string
  | Sim_sent string string
  | Sim_text string
  | No_bot string
  | Real_sent string
  | Send_error string
  | Client_started
  | Client_stopped
  | Miner_started
  | Miner_cancelled
  | Miner_stopped
  | Almost_ready string rat
  | Summary_written

text \<open>\<open>ts()\<close> reads the wall clock. The four calls \<open>extract_and_record\<close> can make get their
  answers from the environment, one field per call site.\<close>

record ts_reads =
  ts_berries :: string
  ts_crystals :: string
  ts_waifu :: string
  ts_waifu_event :: string

text \<open>
  Conversions between integers and decimal strings. Integers are unbounded, but CPython (3.11
  and later, and the security releases of the earlier versions) refuses a conversion either
  way when the decimal string has more than \<open>sys.int_max_str_digits\<close> digits, 4300 unless
  configured otherwise, and raises \<open>ValueError\<close>.

  \<open>str_nat\<close> writes a natural number in decimal. \<open>py_int\<close> is \<open>int(s)\<close> on a string of ASCII
  digits; on any other string the model raises \<open>ValueError\<close>, and Python accepts a few more
  forms (a sign, blanks around, underscores), so the model raises wherever Python does.
  \<open>py_str\<close> is \<open>str(n)\<close>, the conversion an f-string applies to an integer.
\<close>

definition INT_MAX_STR_DIGITS :: nat where
  "INT_MAX_STR_DIGITS = 4300"

fun str_nat :: "nat \<Rightarrow> string" where
  "str_nat n =
     (if n < 10 then [char_of (48 + n)] else str_nat (n div 10) @ [char_of (48 + n mod 10)])"

declare str_nat.simps [simp del]

definition digit_val :: "char \<Rightarrow> nat" where
  "digit_val c = (of_char c :: nat) - 48"

definition py_int :: "string \<Rightarrow> exn + int" where
  "py_int s =
     (if s \<noteq> [] \<and> list_all is_digit s \<and> length s \<le> INT_MAX_STR_DIGITS
      then Inr (int (foldl (\<lambda>a c. 10 * a + digit_val c) 0 s))
      else Inl ValueError)"

definition py_str :: "int \<Rightarrow> exn + string" where
  "py_str n =
     (let ds = str_nat (nat \<bar>n\<bar>)
      in if length ds \<le> INT_MAX_STR_DIGITS then Inr ((if n < 0 then ''-'' else []) @ ds)
         else Inl ValueError)"

text \<open>A statement sequence: the second part runs on the state the first one left, unless
  the first one raised. The state is returned in both cases: the dicts are mutated in place,
  so what was done before a raise stays done.\<close>

definition and_then ::
  "exn option \<times> 'a \<Rightarrow> ('a \<Rightarrow> exn option \<times> 'a) \<Rightarrow> exn option \<times> 'a" where
  "and_then r f = (case r of (None, a) \<Rightarrow> f a | (Some e, a) \<Rightarrow> (Some e, a))"

type_synonym sink = "summary \<times> log_line list"

text \<open>\<open>extract_and_record\<close> of \<open>B_m.py\<close> (lines 89-110). Two steps of a block can raise:
  \<open>int(berries)\<close>, before anything is changed, and the f-string of the log line, which
  formats the new total, after the total and the event log are updated. The second
  \<open>int(berries)\<close> of a block reads the string the first one accepted.\<close>

definition extract_and_record :: "ts_reads \<Rightarrow> string \<Rightarrow> sink \<Rightarrow> exn option \<times> sink" where
  "extract_and_record rd txt st =
     and_then (and_then
       (case st of (s, lg) \<Rightarrow>
          (case search RE_BERRIES 3 txt of
             None \<Rightarrow> (None, s, lg)
           | Some b \<Rightarrow>
               (case first_truthy b of
                  None \<Rightarrow> (None, s, lg)
                | Some berries \<Rightarrow>
                    (case py_int berries of
                       Inl e \<Rightarrow> (Some e, s, lg)
                     | Inr n \<Rightarrow>
                         (let s1 = s\<lparr>berries_total := berries_total s + n\<rparr>;
                              s2 = s1\<lparr>events := events s1 @ [Berries_event (ts_berries rd) n txt]\<rparr>
                          in (case py_str (berries_total s2) of
                                Inl e \<Rightarrow> (Some e, s2, lg)
                              | Inr shown \<Rightarrow>
                                  (None, s2, lg @ [Parsed_berries berries (berries_total s2)])))))))
       (\<lambda>(s, lg).
          (case search RE_CRYSTALS 2 txt of
             None \<Rightarrow> (None, s, lg)
           | Some c \<Rightarrow>
               (case first_truthy c of
                  None \<Rightarrow> (None, s, lg)
                | Some crystals \<Rightarrow>
                    (case py_int crystals of
                       Inl e \<Rightarrow> (Some e, s, lg)
                     | Inr n \<Rightarrow>
                         (let s1 = s\<lparr>crystals_total := crystals_total s + n\<rparr>;
                              s2 = s1\<lparr>events := events s1 @ [Crystals_event (ts_crystals rd) n txt]\<rparr>
                          in (case py_str (crystals_total s2) of
                                Inl e \<Rightarrow> (Some e, s2, lg)
                              | Inr shown \<Rightarrow>
                                  (None, s2, lg @ [Parsed_crystals crystals (crystals_total s2)]))))))))
       (\<lambda>(s, lg).
          (case search RE_WAIFU 2 txt of
             None \<Rightarrow> (None, s, lg)
           | Some w \<Rightarrow>
               (case first_truthy w of
                  None \<Rightarrow> (None, s, lg)
                | Some waifu \<Rightarrow>
                    (let s1 = s\<lparr>waifus := waifus s @
                                 [\<lparr>w_time = ts_waifu rd, w_name = waifu, w_text = txt\<rparr>]\<rparr>;
                         s2 = s1\<lparr>events := events s1 @ [Waifu_event (ts_waifu_event rd) waifu txt]\<rparr>
                     in (None, s2, lg @ [Obtained_waifu waifu])))))"

text \<open>\<open>extract_and_record\<close> of \<open>B_m2.py\<close> (lines 78-99).\<close>

definition extract_and_record2 :: "ts_reads \<Rightarrow> string \<Rightarrow> sink \<Rightarrow> exn option \<times> sink" where
  "extract_and_record2 rd txt st =
     and_then (and_then
       (case st of (s, lg) \<Rightarrow>
          (case search RE_BERRIES 3 txt of
             None \<Rightarrow> (None, s, lg)
           | Some b \<Rightarrow>
               (case first_truthy b of
                  None \<Rightarrow> (None, s, lg)
                | Some berries \<Rightarrow>
                    (case py_int berries of
                       Inl e \<Rightarrow> (Some e, s, lg)
                     | Inr n \<Rightarrow>
                         (let s1 = s\<lparr>berries_total := berries_total s + n\<rparr>;
                              s2 = s1\<lparr>events := events s1 @ [Berries_event (ts_berries rd) n txt]\<rparr>
                          in (case py_str (berries_total s2) of
                                Inl e \<Rightarrow> (Some e, s2, lg)
                              | Inr shown \<Rightarrow>
                                  (None, s2, lg @ [Parsed_berries berries (berries_total s2)])))))))
       (\<lambda>(s, lg).
          (case search RE_CRYSTALS 2 txt of
             None \<Rightarrow> (None, s, lg)
           | Some c \<Rightarrow>
               (case first_truthy c of
                  None \<Rightarrow> (None, s, lg)
                | Some crystals \<Rightarrow>
                    (case py_int crystals of
                       Inl e \<Rightarrow> (Some e, s, lg)
                     | Inr n \<Rightarrow>
                         (let s1 = s\<lparr>crystals_total := crystals_total s + n\<rparr>;
                              s2 = s1\<lparr>events := events s1 @ [Crystals_event (ts_crystals rd) n txt]\<rparr>
                          in (case py_str (crystals_total s2) of
                                Inl e \<Rightarrow> (Some e, s2, lg)
                              | Inr shown \<Rightarrow>
                                  (None, s2, lg @ [Parsed_crystals crystals (crystals_total s2)]))))))))
       (\<lambda>(s, lg).
          (case search RE_WAIFU 2 txt of
             None \<Rightarrow> (None, s, lg)
           | Some w \<Rightarrow>
               (case first_truthy w of
                  None \<Rightarrow> (None, s, lg)
                | Some waifu \<Rightarrow>
                    (let s1 = s\<lparr>waifus := waifus s @
                                 [\<lparr>w_time = ts_waifu rd, w_name = waifu, w_text = txt\<rparr>]\<rparr>;
                         s2 = s1\<lparr>events := events s1 @ [Waifu_event (ts_waifu_event rd) waifu txt]\<rparr>
                     in (None, s2, lg @ [Got_waifu waifu])))))"


section \<open>The simulated and the real send\<close>

text \<open>
  Time stamps are \<open>datetime\<close> values: whole microseconds, here counted from 1970-01-01, so
  that \<open>datetime.min\<close> (0001-01-01 00:00) is a large negative number. \<open>total_seconds()\<close> of a
  difference is a float in the source; the model keeps the exact quotient. The comparisons
  of the scheduler come out the same: 125.0 and 2.0 are floats, the division rounds
  monotonically, and a difference that is not a threshold is a whole microsecond away
  from it.
\<close>

type_synonym time = int

definition datetime_min :: time where
  "datetime_min = - 62135596800000000"

definition total_seconds :: "int \<Rightarrow> rat" where
  "total_seconds d = of_int d / 1000000"

definition COMMAND_COOLDOWN :: rat where
  "COMMAND_COOLDOWN = 125"

definition ALMOST_READY_THRESHOLD :: rat where
  "ALMOST_READY_THRESHOLD = 2"

text \<open>The two files: \<open>B_m.py\<close> and \<open>B_m2.py\<close>. Their scheduler loops are the same text;
  the simulated answer and one log line differ.\<close>

datatype source_file = B_m | B_m2


record miner =
  session_id :: string
  commands :: "string list"
  simulate :: bool
  bot :: "string option"
  real_client :: bool
  running :: bool
  summary :: summary
  last_sent :: "string \<rightharpoonup> time"
  logger :: "log_line list"
  written :: "summary list"

text \<open>
  What the surroundings do while the scheduler task is suspended in an \<open>await\<close>: the control
  task may call \<open>stop()\<close>, and it may cancel the task, which raises \<open>CancelledError\<close> at the
  \<open>await\<close>. A library call ends by returning, by raising \<open>RPCError\<close>, or by raising
  something else.

  Two things that can also happen during a suspension are left out. In live mode the handler
  that \<open>RealClient.start\<close> registers records the texts the bot sends, by
  \<open>extract_and_record\<close>; it runs as a task of its own and only ever adds to the summary.
  And a \<open>start()\<close> that follows a \<open>stop()\<close> within the same suspension would set a second loop
  going beside the first.
\<close>

record await_env =
  stop_called :: bool
  cancelled :: bool

datatype call_result = Done | Rpc_error | Failed

record dispatch_env = await_env +
  send_result :: call_result
  rand_berries :: nat
  sim_ts :: string
  sim_reads :: ts_reads
  clock_after :: time

definition suspend :: "('a::type) await_env_scheme \<Rightarrow> miner \<Rightarrow> exn option \<times> miner" where
  "suspend e m =
     (let m1 = m\<lparr>running := running m \<and> \<not> stop_called e\<rparr>
      in if cancelled e then (Some CancelledError, m1) else (None, m1))"

text \<open>The two emoji of the simulated answer, U+1F389 and U+1F4B0, as UTF-8.\<close>

definition PARTY_POPPER :: string where
  "PARTY_POPPER = [CHR 0xF0, CHR 0x9F, CHR 0x8E, CHR 0x89]"

definition MONEY_BAG :: string where
  "MONEY_BAG = [CHR 0xF0, CHR 0x9F, CHR 0x92, CHR 0xB0]"

definition with_sink :: "miner \<Rightarrow> exn option \<times> sink \<Rightarrow> exn option \<times> miner" where
  "with_sink m r = (case r of (x, s, lg) \<Rightarrow> (x, m\<lparr>summary := s, logger := lg\<rparr>))"

text \<open>\<open>simulate_send\<close> of \<open>B_m.py\<close> (lines 74-86). \<open>rand_berries\<close> is what
  \<open>random.randint(5, 800)\<close> returned.\<close>

definition simulate_send :: "dispatch_env \<Rightarrow> string \<Rightarrow> miner \<Rightarrow> exn option \<times> miner" where
  "simulate_send e command m =
     and_then (suspend e m)
       (\<lambda>m1.
          (let lg = logger m1 @ [Sim_sent (session_id m1) command]
           in if command = ''/explore''
              then (let txt = sim_ts e @ '' [simulated session]: /explore result: '' @ PARTY_POPPER
                            @ '' You uncovered ancient ruins and discovered ''
                            @ str_nat (rand_berries e) @ '' Berries! '' @ MONEY_BAG
                    in with_sink m1
                         (extract_and_record (sim_reads e) txt (summary m1, lg @ [Sim_text txt])))
              else (None, m1\<lparr>logger := lg @ [Sim_text (sim_ts e @ '' [simulated session]: ''
                                                 @ command @ '' result: (simulated)'')]\<rparr>)))"

text \<open>\<open>simulate_send\<close> of \<open>B_m2.py\<close> (lines 64-76).\<close>

definition simulate_send2 :: "dispatch_env \<Rightarrow> string \<Rightarrow> miner \<Rightarrow> exn option \<times> miner" where
  "simulate_send2 e command m =
     and_then (suspend e m)
       (\<lambda>m1.
          (let lg = logger m1 @ [Sim_sent (session_id m1) command]
           in if command = ''/explore''
              then (let txt = sim_ts e @ '' [simulated session]: /explore result: '' @ PARTY_POPPER
                            @ '' You uncovered ruins and discovered ''
                            @ str_nat (rand_berries e) @ '' Berries! '' @ MONEY_BAG
                    in with_sink m1
                         (extract_and_record2 (sim_reads e) txt (summary m1, lg @ [Sim_text txt])))
              else (None, m1\<lparr>logger := lg @ [Sim_text (sim_ts e @ '' [simulated session]: ''
                                                 @ command @ '' result: (simulated)'')]\<rparr>)))"

text \<open>Truth value of an optional string: \<open>None\<close> and the empty string are false.\<close>

definition truthy :: "string option \<Rightarrow> bool" where
  "truthy x = (case x of None \<Rightarrow> False | Some v \<Rightarrow> v \<noteq> [])"

text \<open>\<open>RealClient.send\<close> (\<open>B_m.py\<close> lines 136-144, \<open>B_m2.py\<close> lines 124-132): only \<open>RPCError\<close>
  is caught.\<close>

definition send :: "dispatch_env \<Rightarrow> string \<Rightarrow> miner \<Rightarrow> exn option \<times> miner" where
  "send e command m =
     (if \<not> truthy (bot m) then (None, m\<lparr>logger := logger m @ [No_bot command]\<rparr>)
      else and_then (suspend e m)
        (\<lambda>m1. case send_result e of
                 Done \<Rightarrow> (None, m1\<lparr>logger := logger m1 @ [Real_sent command]\<rparr>)
               | Rpc_error \<Rightarrow> (None, m1\<lparr>logger := logger m1 @ [Send_error command]\<rparr>)
               | Failed \<Rightarrow> (Some Transport_failure, m1)))"

section \<open>The scheduler\<close>

text \<open>What the loop did for a command, in the order it did it: entered the dispatch branch,
  or wrote the "almost ready" notice.\<close>

datatype action = Dispatch string | Notice string

text \<open>The body of the \<open>for\<close> loop for one command (\<open>B_m.py\<close> lines 184-195, \<open>B_m2.py\<close> lines
  168-179). \<open>clock_after\<close> is what \<open>datetime.now()\<close> returns after the send.\<close>

definition poll ::
  "source_file \<Rightarrow> time \<Rightarrow> dispatch_env \<Rightarrow> string \<Rightarrow> miner \<Rightarrow> action list \<times> exn option \<times> miner" where
  "poll f now e cmd m =
     (case last_sent m cmd of
        None \<Rightarrow> ([], Some KeyError, m)
      | Some t \<Rightarrow>
          (let elapsed = total_seconds (now - t);
               remaining = COMMAND_COOLDOWN - elapsed
           in if elapsed \<ge> COMMAND_COOLDOWN
              then ([Dispatch cmd],
                    and_then
                      (if simulate m
                       then (case f of B_m \<Rightarrow> simulate_send e cmd m | B_m2 \<Rightarrow> simulate_send2 e cmd m)
                       else if real_client m then send e cmd m
                       else (None, m))
                      (\<lambda>m1. (None, m1\<lparr>last_sent := (last_sent m1)(cmd \<mapsto> clock_after e)\<rparr>)))
              else if remaining < ALMOST_READY_THRESHOLD
              then ([Notice cmd], None, m\<lparr>logger := logger m @ [Almost_ready cmd remaining]\<rparr>)
              else ([], None, m)))"

text \<open>The \<open>for\<close> loop of one tick: it breaks when \<open>running\<close> is off and ends at a raise.\<close>

fun for_commands ::
  "source_file \<Rightarrow> time \<Rightarrow> (string \<Rightarrow> dispatch_env) \<Rightarrow> string list \<Rightarrow> miner
     \<Rightarrow> action list \<times> exn option \<times> miner" where
  "for_commands f now env [] m = ([], None, m)"
| "for_commands f now env (cmd # cmds) m =
     (if \<not> running m then ([], None, m)
      else (case poll f now (env cmd) cmd m of
              (a, Some x, m1) \<Rightarrow> (a, Some x, m1)
            | (a, None, m1) \<Rightarrow>
                (case for_commands f now env cmds m1 of (b, r, m2) \<Rightarrow> (a @ b, r, m2))))"


text \<open>One pass of the \<open>while\<close> loop is a tick: read the clock, run the \<open>for\<close> loop, sleep one
  second. The environment of a run is a list of ticks; when the list is used up and
  \<open>running\<close> is still on, the loop is \<open>Pending\<close>: it has not ended.\<close>

record tick_env =
  clock_now :: time
  dispatches :: "string \<Rightarrow> dispatch_env"
  nap :: await_env

datatype loop_end = Exited | Pending | Raised exn

fun loop :: "source_file \<Rightarrow> tick_env list \<Rightarrow> miner \<Rightarrow> action list \<times> loop_end \<times> miner" where
  "loop f [] m = ([], if running m then Pending else Exited, m)"
| "loop f (t # ts) m =
     (if \<not> running m then ([], Exited, m)
      else (case for_commands f (clock_now t) (dispatches t) (commands m) m of
              (a, Some x, m1) \<Rightarrow> (a, Raised x, m1)
            | (a, None, m1) \<Rightarrow>
                (case suspend (nap t) m1 of
                   (Some x, m2) \<Rightarrow> (a, Raised x, m2)
                 | (None, m2) \<Rightarrow>
                     (case loop f ts m2 of (b, r, m3) \<Rightarrow> (a @ b, r, m3)))))"

section \<open>The session\<close>

text \<open>\<open>Miner.__init__\<close> (\<open>B_m.py\<close> lines 152-168, \<open>B_m2.py\<close> lines 139-155). The first
  argument is \<open>TELETHON_AVAILABLE\<close>. Failures of the file system (the log directory) are
  outside the model.\<close>

definition empty_summary :: summary where
  "empty_summary = \<lparr>berries_total = 0, crystals_total = 0, waifus = [], events = []\<rparr>"




text \<open>\<open>_write_summary\<close>: the summary as it is goes to a new file. \<open>json.dump\<close> converts every
  integer of the summary to a string and raises \<open>ValueError\<close> at one that is too long; the
  file it leaves then is incomplete and does not count as written. Failures of the file
  system are outside the model.\<close>

fun amount_of :: "event \<Rightarrow> int" where
  "amount_of (Berries_event _ n _) = n"
| "amount_of (Crystals_event _ n _) = n"
| "amount_of (Waifu_event _ _ _) = 0"

definition dumpable :: "summary \<Rightarrow> bool" where
  "dumpable s =
     (py_str (berries_total s) \<noteq> Inl ValueError \<and> py_str (crystals_total s) \<noteq> Inl ValueError
      \<and> list_all (\<lambda>e. py_str (amount_of e) \<noteq> Inl ValueError) (events s))"








section \<open>Vocabulary of the properties\<close>

subsection \<open>What one call of the extractor does to the summary\<close>

text \<open>The lookup that each of the three blocks of \<open>extract_and_record\<close> starts with: the
  first non-empty group of the first match, as a list of at most one string.\<close>

definition found :: "re \<Rightarrow> nat \<Rightarrow> string \<Rightarrow> string list" where
  "found r n txt =
     (case search r n txt of None \<Rightarrow> []
      | Some g \<Rightarrow> (case first_truthy g of None \<Rightarrow> [] | Some d \<Rightarrow> [d]))"

text \<open>The value of a string of digits, and whether an integer can be converted to a
  string.\<close>

definition amount :: "string \<Rightarrow> int" where
  "amount d = int (foldl (\<lambda>a c. 10 * a + digit_val c) 0 d)"

definition fits :: "int \<Rightarrow> bool" where
  "fits n = (length (str_nat (nat \<bar>n\<bar>)) \<le> INT_MAX_STR_DIGITS)"

text \<open>The three blocks without the logger: the outcome and the summary they leave. Both
  files have the same three blocks; \<open>recorded\<close> is their sequence.\<close>

definition berries_part :: "ts_reads \<Rightarrow> string \<Rightarrow> summary \<Rightarrow> exn option \<times> summary" where
  "berries_part rd txt s =
     (case found RE_BERRIES 3 txt of
        [] \<Rightarrow> (None, s)
      | d # _ \<Rightarrow>
          (case py_int d of
             Inl e \<Rightarrow> (Some e, s)
           | Inr n \<Rightarrow>
               (let s2 = s\<lparr>berries_total := berries_total s + n,
                           events := events s @ [Berries_event (ts_berries rd) n txt]\<rparr>
                in if fits (berries_total s2) then (None, s2) else (Some ValueError, s2))))"

definition crystals_part :: "ts_reads \<Rightarrow> string \<Rightarrow> summary \<Rightarrow> exn option \<times> summary" where
  "crystals_part rd txt s =
     (case found RE_CRYSTALS 2 txt of
        [] \<Rightarrow> (None, s)
      | d # _ \<Rightarrow>
          (case py_int d of
             Inl e \<Rightarrow> (Some e, s)
           | Inr n \<Rightarrow>
               (let s2 = s\<lparr>crystals_total := crystals_total s + n,
                           events := events s @ [Crystals_event (ts_crystals rd) n txt]\<rparr>
                in if fits (crystals_total s2) then (None, s2) else (Some ValueError, s2))))"

definition waifu_part :: "ts_reads \<Rightarrow> string \<Rightarrow> summary \<Rightarrow> summary" where
  "waifu_part rd txt s =
     (case found RE_WAIFU 2 txt of
        [] \<Rightarrow> s
      | w # _ \<Rightarrow>
          s\<lparr>waifus := waifus s @ [\<lparr>w_time = ts_waifu rd, w_name = w, w_text = txt\<rparr>],
            events := events s @ [Waifu_event (ts_waifu_event rd) w txt]\<rparr>)"

definition recorded :: "ts_reads \<Rightarrow> string \<Rightarrow> summary \<Rightarrow> exn option \<times> summary" where
  "recorded rd txt s =
     and_then (and_then (berries_part rd txt s) (crystals_part rd txt))
       (\<lambda>s2. (None, waifu_part rd txt s2))"

text \<open>The events the three lookups of a text stand for, in the order of the blocks: what a
  call that returns appends.\<close>

definition new_events :: "ts_reads \<Rightarrow> string \<Rightarrow> event list" where
  "new_events rd txt =
     map (\<lambda>d. Berries_event (ts_berries rd) (amount d) txt) (found RE_BERRIES 3 txt)
     @ map (\<lambda>d. Crystals_event (ts_crystals rd) (amount d) txt) (found RE_CRYSTALS 2 txt)
     @ map (\<lambda>w. Waifu_event (ts_waifu_event rd) w txt) (found RE_WAIFU 2 txt)"

text \<open>Groups that hold digits only, which is what the berry and the crystal pattern capture,
  and groups of bounded length.\<close>

definition digits :: "string \<Rightarrow> bool" where
  "digits d = (d \<noteq> [] \<and> list_all is_digit d)"

definition digit_tuple :: "groups \<Rightarrow> bool" where
  "digit_tuple g = list_all (\<lambda>x. case x of None \<Rightarrow> True | Some d \<Rightarrow> digits d) g"

definition short_tuple :: "nat \<Rightarrow> groups \<Rightarrow> bool" where
  "short_tuple k g = list_all (\<lambda>x. case x of None \<Rightarrow> True | Some d \<Rightarrow> length d \<le> k) g"

fun digit_groups :: "re \<Rightarrow> bool" where
  "digit_groups (Grp i a) = (a = Plus Digit)"
| "digit_groups (Cat a b) = (digit_groups a \<and> digit_groups b)"
| "digit_groups (Alt a b) = (digit_groups a \<and> digit_groups b)"
| "digit_groups (Opt a) = digit_groups a"
| "digit_groups a = True"

subsection \<open>Events by type, calls in sequence\<close>

text \<open>The \<open>'type'\<close> of an event, the sum of the amounts of the events of one type, and the
  three equations between the fields of a summary.\<close>

datatype kind = Berries | Crystals | Waifu

fun event_type :: "event \<Rightarrow> kind" where
  "event_type (Berries_event _ _ _) = Berries"
| "event_type (Crystals_event _ _ _) = Crystals"
| "event_type (Waifu_event _ _ _) = Waifu"

definition total_of :: "kind \<Rightarrow> event list \<Rightarrow> int" where
  "total_of k evs = sum_list (map amount_of (filter (\<lambda>e. event_type e = k) evs))"

definition balanced :: "summary \<Rightarrow> bool" where
  "balanced s =
     (berries_total s = total_of Berries (events s)
      \<and> crystals_total s = total_of Crystals (events s)
      \<and> length (waifus s) = length (filter (\<lambda>e. event_type e = Waifu) (events s)))"

text \<open>The extractor of either file, and a sequence of calls on the same summary and logger.
  A call that raises leaves the summary as it was at the raise, and the next call goes on
  from there: the handler of inbound texts is called again for the next text. \<open>outcomes\<close>
  lists how the calls ended.\<close>

definition extract_of :: "source_file \<Rightarrow> ts_reads \<Rightarrow> string \<Rightarrow> sink \<Rightarrow> exn option \<times> sink" where
  "extract_of f = (case f of B_m \<Rightarrow> extract_and_record | B_m2 \<Rightarrow> extract_and_record2)"

fun record_all :: "source_file \<Rightarrow> (ts_reads \<times> string) list \<Rightarrow> sink \<Rightarrow> sink" where
  "record_all f [] st = st"
| "record_all f ((rd, txt) # calls) st = record_all f calls (snd (extract_of f rd txt st))"

fun outcomes :: "source_file \<Rightarrow> (ts_reads \<times> string) list \<Rightarrow> sink \<Rightarrow> exn option list" where
  "outcomes f [] st = []"
| "outcomes f ((rd, txt) # calls) st =
     fst (extract_of f rd txt st) # outcomes f calls (snd (extract_of f rd txt st))"

definition summary_after :: "source_file \<Rightarrow> (ts_reads \<times> string) list \<Rightarrow> summary" where
  "summary_after f calls = fst (record_all f calls (empty_summary, []))"

subsection \<open>Environments of a tick\<close>

text \<open>A dispatch is \<open>steady\<close> when it is not cancelled and its send does not raise past
  \<open>RealClient.send\<close>; it is \<open>calm\<close> when, besides, nobody calls \<open>stop()\<close> during it.\<close>

definition steady :: "dispatch_env \<Rightarrow> bool" where
  "steady e = (\<not> cancelled e \<and> send_result e \<noteq> Failed)"

definition calm :: "dispatch_env \<Rightarrow> bool" where
  "calm e = (steady e \<and> \<not> stop_called e)"

text \<open>A tick is calm for a list of commands when its dispatches are calm and its sleep is
  neither cancelled nor used to call \<open>stop()\<close>.\<close>

definition calm_tick :: "string list \<Rightarrow> tick_env \<Rightarrow> bool" where
  "calm_tick cs t =
     (\<not> cancelled (nap t) \<and> \<not> stop_called (nap t) \<and> list_all (\<lambda>c. calm (dispatches t c)) cs)"

text \<open>
  In simulation mode the dispatch of \<open>/explore\<close> records its answer, and the call of the
  extractor can raise. It does not when the answer is one the generator produces (a time
  stamp of 19 characters from \<open>ts()\<close>, an amount \<open>random.randint(5, 800)\<close> returns) and the
  conversion limit is far: the answer has fewer than 200 characters, so it adds less than
  \<open>answer_room\<close> to a total, and \<open>headroom j\<close> says that both totals have room for \<open>j\<close> such
  answers. \<open>explores\<close> counts the dispatches of a tick that record.
\<close>

definition sim_answer_ok :: "dispatch_env \<Rightarrow> bool" where
  "sim_answer_ok e = (length (sim_ts e) = 19 \<and> 5 \<le> rand_berries e \<and> rand_berries e \<le> 800)"

definition answer_room :: int where
  "answer_room = 10 ^ 200"

definition headroom :: "nat \<Rightarrow> summary \<Rightarrow> bool" where
  "headroom j s =
     (0 \<le> berries_total s
      \<and> berries_total s + int j * answer_room \<le> 10 ^ INT_MAX_STR_DIGITS
      \<and> 0 \<le> crystals_total s
      \<and> crystals_total s + int j * answer_room \<le> 10 ^ INT_MAX_STR_DIGITS)"

definition sim_ready :: "nat \<Rightarrow> dispatch_env \<Rightarrow> miner \<Rightarrow> bool" where
  "sim_ready j e m = (simulate m \<longrightarrow> sim_answer_ok e \<and> headroom j (summary m))"

definition explores :: "string list \<Rightarrow> nat" where
  "explores cs = count_list cs ''/explore''"

text \<open>The fields a run never assigns.\<close>

definition same_config :: "miner \<Rightarrow> miner \<Rightarrow> bool" where
  "same_config m m' =
     (session_id m' = session_id m \<and> commands m' = commands m \<and> simulate m' = simulate m
      \<and> bot m' = bot m \<and> real_client m' = real_client m \<and> written m' = written m)"

text \<open>What the loop body does for a command last sent at \<open>t\<close>, by its two tests.\<close>

definition expected :: "time \<Rightarrow> time \<Rightarrow> string \<Rightarrow> action list" where
  "expected now t c =
     (if COMMAND_COOLDOWN \<le> total_seconds (now - t) then [Dispatch c]
      else if COMMAND_COOLDOWN - total_seconds (now - t) < ALMOST_READY_THRESHOLD then [Notice c]
      else [])"

subsection \<open>Example states\<close>

text \<open>A simulated session of \<open>B_m.py\<close> with two commands, as \<open>Miner.__init__\<close> and the
  first lines of the coroutine leave it; a live session; and environments in which a dispatch
  returns 0.7 s after the tick read the clock.\<close>

definition example_reads :: ts_reads where
  "example_reads =
     \<lparr>ts_berries = ''2024-05-01 10:00:00'', ts_crystals = ''2024-05-01 10:00:00'',
      ts_waifu = ''2024-05-01 10:00:00'', ts_waifu_event = ''2024-05-01 10:00:01''\<rparr>"

definition example_env :: dispatch_env where
  "example_env =
     \<lparr>stop_called = False, cancelled = False, send_result = Done, rand_berries = 42,
      sim_ts = ''2024-05-01 10:00:00'', sim_reads = example_reads, clock_after = 700000\<rparr>"

definition example_miner :: miner where
  "example_miner =
     \<lparr>session_id = ''s1'', commands = [''/dice'', ''/lever''], simulate = True, bot = None,
      real_client = False, running = True, summary = empty_summary,
      last_sent = map_of [(''/dice'', datetime_min), (''/lever'', datetime_min)],
      logger = [Miner_started], written = []\<rparr>"

definition example_live_miner :: miner where
  "example_live_miner =
     \<lparr>session_id = ''s1'', commands = [''/dice'', ''/lever''], simulate = False,
      bot = Some ''@game_bot'', real_client = True, running = True, summary = empty_summary,
      last_sent = map_of [(''/dice'', datetime_min), (''/lever'', datetime_min)],
      logger = [Miner_started, Client_started], written = []\<rparr>"

definition example_tick :: "time \<Rightarrow> dispatch_env \<Rightarrow> tick_env" where
  "example_tick t e =
     \<lparr>clock_now = t, dispatches = (\<lambda>_. e), nap = \<lparr>stop_called = False, cancelled = False\<rparr>\<rparr>"


section \<open>Lemmas\<close>

subsection \<open>The matcher\<close>

lemma rep_greedy_split:
  "r \<in> set (rep_greedy p s) \<Longrightarrow> \<exists>d. s = d @ r \<and> d \<noteq> [] \<and> list_all p d"
proof (induction s)
  case Nil
  then show ?case by simp
next
  case (Cons x xs)
  then have px: "p x" and alt: "r \<in> set (rep_greedy p xs) \<or> r = xs"
    by (auto split: if_splits)
  from alt show ?case
  proof
    assume "r \<in> set (rep_greedy p xs)"
    with Cons.IH obtain d where "xs = d @ r" "list_all p d" by blast
    with px have "x # xs = (x # d) @ r \<and> x # d \<noteq> [] \<and> list_all p (x # d)" by simp
    then show ?thesis by blast
  next
    assume "r = xs"
    with px have "x # xs = [x] @ r \<and> [x] \<noteq> [] \<and> list_all p [x]" by simp
    then show ?thesis by blast
  qed
qed

lemma digit_tuple_update:
  "digit_tuple g \<Longrightarrow> digits d \<Longrightarrow> digit_tuple (g[i := Some d])"
  unfolding digit_tuple_def list_all_iff
  by (auto dest!: subsetD[OF set_update_subset_insert])

lemma matches_digit_tuple:
  "digit_groups a \<Longrightarrow> digit_tuple g \<Longrightarrow> (r, h) \<in> set (matches a (s, g)) \<Longrightarrow> digit_tuple h"
proof (induction a arbitrary: s g r h)
  case Eps
  then show ?case by simp
next
  case (Lit c)
  then show ?case by (cases s) (simp_all split: if_splits)
next
  case (Cat a b)
  from Cat.prems(3) obtain r1 h1 where 1: "(r1, h1) \<in> set (matches a (s, g))"
    and 2: "(r, h) \<in> set (matches b (r1, h1))" by auto
  from Cat.prems(1) have da: "digit_groups a" and db: "digit_groups b" by simp_all
  from Cat.IH(1)[OF da Cat.prems(2) 1] have "digit_tuple h1" .
  from Cat.IH(2)[OF db this 2] show ?case .
next
  case (Alt a b)
  from Alt.prems(1) have da: "digit_groups a" and db: "digit_groups b" by simp_all
  from Alt.prems(3) have "(r, h) \<in> set (matches a (s, g)) \<or> (r, h) \<in> set (matches b (s, g))"
    by simp
  then show ?case using Alt.IH(1)[OF da Alt.prems(2)] Alt.IH(2)[OF db Alt.prems(2)] by blast
next
  case (Opt a)
  from Opt.prems(1) have da: "digit_groups a" by simp
  from Opt.prems(3) have "(r, h) \<in> set (matches a (s, g)) \<or> h = g" by auto
  then show ?case using Opt.IH[OF da Opt.prems(2)] Opt.prems(2) by blast
next
  case (Plus k)
  then have "h = g" by auto
  with Plus.prems(2) show ?case by simp
next
  case (Lazy_plus k)
  then have "h = g" by auto
  with Lazy_plus.prems(2) show ?case by simp
next
  case (Grp i a)
  then have a: "a = Plus Digit" by simp
  from Grp.prems(3) have r: "r \<in> set (rep_greedy (cls_ok Digit) s)"
    and h: "h = g[i := Some (take (length s - length r) s)]"
    unfolding a by auto
  from rep_greedy_split[OF r] obtain d where d: "s = d @ r" "d \<noteq> []" "list_all (cls_ok Digit) d"
    by blast
  have "list_all is_digit d" using d(3) by (simp add: list_all_iff)
  with d have "take (length s - length r) s = d" "digits d" by (simp_all add: digits_def)
  with h Grp.prems(2) show ?case by (simp add: digit_tuple_update)
qed

lemma search_Some:
  "search a n s = Some g \<Longrightarrow> \<exists>s' r. (r, g) \<in> set (matches a (s', replicate n None))"
proof (induction s)
  case Nil
  then obtain r ps where "matches a ([], replicate n None) = (r, g) # ps"
    by (auto split: list.splits)
  then have "(r, g) \<in> set (matches a ([], replicate n None))" by simp
  then show ?case by blast
next
  case (Cons x xs)
  show ?case
  proof (cases "matches a (x # xs, replicate n None)")
    case Nil
    with Cons show ?thesis by simp
  next
    case (Cons p ps)
    with Cons.prems have "p = (fst p, g)" by (cases p) simp
    with Cons have "(fst p, g) \<in> set (matches a (x # xs, replicate n None))" by simp
    then show ?thesis by blast
  qed
qed

lemma first_truthy_mem: "first_truthy g = Some d \<Longrightarrow> Some d \<in> set g \<and> d \<noteq> []"
  by (induction g rule: first_truthy.induct) (auto split: if_splits)

lemma digit_tuple_replicate: "digit_tuple (replicate n None)"
  by (simp add: digit_tuple_def list_all_iff)

lemma search_digits:
  assumes "digit_groups a" "search a n s = Some g" "first_truthy g = Some d"
  shows "digits d"
proof -
  from search_Some[OF assms(2)] obtain s' r where "(r, g) \<in> set (matches a (s', replicate n None))"
    by blast
  with assms(1) have "digit_tuple g" using matches_digit_tuple digit_tuple_replicate by blast
  moreover from first_truthy_mem[OF assms(3)] have "Some d \<in> set g" by simp
  ultimately show ?thesis by (auto simp: digit_tuple_def list_all_iff)
qed

lemma digit_groups_word: "digit_groups (foldr Cat (map Lit w) a) = digit_groups a"
  by (induction w) simp_all

lemma digit_groups_BERRIES: "digit_groups RE_BERRIES"
  by (simp add: RE_BERRIES_def seq_def word_def digit_groups_word)

lemma digit_groups_CRYSTALS: "digit_groups RE_CRYSTALS"
  by (simp add: RE_CRYSTALS_def seq_def word_def digit_groups_word)

lemma lookup_found:
  "(case search r n txt of None \<Rightarrow> A
    | Some g \<Rightarrow> (case first_truthy g of None \<Rightarrow> A | Some d \<Rightarrow> B d))
   = (case found r n txt of [] \<Rightarrow> A | d # ds \<Rightarrow> B d)"
  by (simp add: found_def split: option.splits)

lemma found_cases: "found r n txt = [] \<or> (\<exists>d. found r n txt = [d])"
  by (simp add: found_def split: option.splits)

lemma found_digits:
  assumes "digit_groups r" "found r n txt = d # ds"
  shows "digits d"
proof -
  from assms(2) obtain g where "search r n txt = Some g" "first_truthy g = Some d"
    by (auto simp: found_def split: option.splits)
  with assms(1) show ?thesis by (rule search_digits)
qed

lemma matches_length:
  "(r, h) \<in> set (matches a (s, g)) \<Longrightarrow> length r \<le> length s"
proof (induction a arbitrary: s g r h)
  case Eps
  then show ?case by simp
next
  case (Lit c)
  then show ?case by (cases s) (simp_all split: if_splits)
next
  case (Cat a b)
  from Cat.prems obtain r1 h1 where 1: "(r1, h1) \<in> set (matches a (s, g))"
    and 2: "(r, h) \<in> set (matches b (r1, h1))" by auto
  from Cat.IH(1)[OF 1] Cat.IH(2)[OF 2] show ?case by simp
next
  case (Alt a b)
  from Alt.prems have "(r, h) \<in> set (matches a (s, g)) \<or> (r, h) \<in> set (matches b (s, g))"
    by simp
  then show ?case using Alt.IH by blast
next
  case (Opt a)
  from Opt.prems have "(r, h) \<in> set (matches a (s, g)) \<or> r = s" by auto
  then show ?case using Opt.IH by auto
next
  case (Plus k)
  then have "r \<in> set (rep_greedy (cls_ok k) s)" by auto
  from rep_greedy_split[OF this] show ?case by auto
next
  case (Lazy_plus k)
  then have "r \<in> set (rep_lazy (cls_ok k) s)" by auto
  then show ?case
  proof (induction s)
    case Nil
    then show ?case by simp
  next
    case (Cons x xs)
    then show ?case by (auto split: if_splits)
  qed
next
  case (Grp i a)
  from Grp.prems obtain h0 where "(r, h0) \<in> set (matches a (s, g))" by auto
  from Grp.IH[OF this] show ?case .
qed

lemma short_tuple_update:
  "short_tuple k g \<Longrightarrow> length d \<le> k \<Longrightarrow> short_tuple k (g[i := Some d])"
  unfolding short_tuple_def list_all_iff
  by (auto dest!: subsetD[OF set_update_subset_insert])

lemma matches_short:
  "short_tuple k g \<Longrightarrow> length s \<le> k \<Longrightarrow> (r, h) \<in> set (matches a (s, g)) \<Longrightarrow> short_tuple k h"
proof (induction a arbitrary: s g r h)
  case Eps
  then show ?case by simp
next
  case (Lit c)
  then show ?case by (cases s) (simp_all split: if_splits)
next
  case (Cat a b)
  from Cat.prems(3) obtain r1 h1 where 1: "(r1, h1) \<in> set (matches a (s, g))"
    and 2: "(r, h) \<in> set (matches b (r1, h1))" by auto
  from Cat.IH(1)[OF Cat.prems(1,2) 1] have s1: "short_tuple k h1" .
  from matches_length[OF 1] Cat.prems(2) have "length r1 \<le> k" by simp
  from Cat.IH(2)[OF s1 this 2] show ?case .
next
  case (Alt a b)
  from Alt.prems(3) have "(r, h) \<in> set (matches a (s, g)) \<or> (r, h) \<in> set (matches b (s, g))"
    by simp
  then show ?case using Alt.IH(1)[OF Alt.prems(1,2)] Alt.IH(2)[OF Alt.prems(1,2)] by blast
next
  case (Opt a)
  from Opt.prems(3) have "(r, h) \<in> set (matches a (s, g)) \<or> h = g" by auto
  then show ?case using Opt.IH[OF Opt.prems(1,2)] Opt.prems(1) by blast
next
  case (Plus c)
  then have "h = g" by auto
  with Plus.prems(1) show ?case by simp
next
  case (Lazy_plus c)
  then have "h = g" by auto
  with Lazy_plus.prems(1) show ?case by simp
next
  case (Grp i a)
  from Grp.prems(3) obtain h0 where 1: "(r, h0) \<in> set (matches a (s, g))"
    and h: "h = h0[i := Some (take (length s - length r) s)]" by auto
  from Grp.IH[OF Grp.prems(1,2) 1] have "short_tuple k h0" .
  moreover from Grp.prems(2) have "length (take (length s - length r) s) \<le> k" by simp
  ultimately show ?case unfolding h by (rule short_tuple_update)
qed

lemma short_tuple_replicate: "short_tuple k (replicate n None)"
  by (simp add: short_tuple_def list_all_iff)

lemma short_tuple_mono: "short_tuple j g \<Longrightarrow> j \<le> k \<Longrightarrow> short_tuple k g"
  unfolding short_tuple_def list_all_iff by (auto split: option.splits)

lemma search_short: "search a n s = Some g \<Longrightarrow> short_tuple (length s) g"
proof (induction s)
  case Nil
  then obtain r ps where "matches a ([], replicate n None) = (r, g) # ps"
    by (auto split: list.splits)
  then have "(r, g) \<in> set (matches a ([], replicate n None))" by simp
  from matches_short[OF short_tuple_replicate _ this] show ?case by simp
next
  case (Cons x xs)
  show ?case
  proof (cases "matches a (x # xs, replicate n None)")
    case Nil
    with Cons.prems have "search a n xs = Some g" by simp
    from Cons.IH[OF this] show ?thesis by (rule short_tuple_mono) simp
  next
    case (Cons p ps)
    with Cons.prems have "p = (fst p, g)" by (cases p) simp
    with Cons have "(fst p, g) \<in> set (matches a (x # xs, replicate n None))" by simp
    from matches_short[OF short_tuple_replicate _ this] show ?thesis by simp
  qed
qed

lemma found_short:
  assumes "found r n txt = d # ds"
  shows "length d \<le> length txt"
proof -
  from assms obtain g where g: "search r n txt = Some g" and d: "first_truthy g = Some d"
    by (auto simp: found_def split: option.splits)
  from first_truthy_mem[OF d] have "Some d \<in> set g" by simp
  with search_short[OF g] show ?thesis by (auto simp: short_tuple_def list_all_iff)
qed

subsection \<open>Integers and decimal strings\<close>

lemma digit_val_le: "is_digit c \<Longrightarrow> digit_val c \<le> 9"
  by (auto simp: is_digit_def digit_val_def Let_def)

lemma digits_value_bound:
  "list_all is_digit d \<Longrightarrow> foldl (\<lambda>a c. 10 * a + digit_val c) acc d < (acc + 1) * 10 ^ length d"
proof (induction d arbitrary: acc)
  case Nil
  then show ?case by simp
next
  case (Cons c d)
  then have "digit_val c \<le> 9" and "list_all is_digit d" by (simp_all add: digit_val_le)
  from Cons.IH[OF this(2), of "10 * acc + digit_val c"]
  have "foldl (\<lambda>a c. 10 * a + digit_val c) (10 * acc + digit_val c) d
          < (10 * acc + digit_val c + 1) * 10 ^ length d" .
  also from \<open>digit_val c \<le> 9\<close> have "\<dots> \<le> (10 * acc + 10) * 10 ^ length d"
    by (intro mult_right_mono) simp_all
  also have "\<dots> = (acc + 1) * 10 ^ length (c # d)" by (simp add: algebra_simps)
  finally show ?case by simp
qed

lemma amount_bound: "digits d \<Longrightarrow> amount d < 10 ^ length d"
proof -
  assume "digits d"
  then have "list_all is_digit d" by (simp add: digits_def)
  from digits_value_bound[OF this, of 0]
  have "foldl (\<lambda>a c. 10 * a + digit_val c) 0 d < 10 ^ length d" by simp
  then have "int (foldl (\<lambda>a c. 10 * a + digit_val c) 0 d) < int (10 ^ length d)"
    by (simp only: of_nat_less_iff)
  then show ?thesis by (simp add: amount_def)
qed

lemma amount_nonneg: "0 \<le> amount d"
  by (simp add: amount_def)

lemma str_nat_length: "n < 10 ^ k \<Longrightarrow> 0 < k \<Longrightarrow> length (str_nat n) \<le> k"
proof (induction k arbitrary: n)
  case 0
  then show ?case by simp
next
  case (Suc k)
  show ?case
  proof (cases "n < 10")
    case True
    then show ?thesis by (simp add: str_nat.simps[of n])
  next
    case False
    from Suc.prems(1) have "n div 10 < 10 ^ k" by (simp add: less_mult_imp_div_less mult.commute)
    moreover from False have "0 < k"
    proof (cases k)
      case 0
      with Suc.prems(1) False show ?thesis by simp
    qed simp
    ultimately have "length (str_nat (n div 10)) \<le> k" by (rule Suc.IH)
    with False show ?thesis by (simp add: str_nat.simps[of n])
  qed
qed

lemma fits_below:
  assumes "0 \<le> n" "n < 10 ^ INT_MAX_STR_DIGITS"
  shows "fits n"
proof -
  from assms have "int (nat n) < int (10 ^ INT_MAX_STR_DIGITS)" by simp
  then have "nat n < 10 ^ INT_MAX_STR_DIGITS" by (simp only: of_nat_less_iff)
  moreover have "0 < INT_MAX_STR_DIGITS" by (simp add: INT_MAX_STR_DIGITS_def)
  ultimately have "length (str_nat (nat n)) \<le> INT_MAX_STR_DIGITS" by (rule str_nat_length)
  with assms(1) show ?thesis by (simp add: fits_def)
qed

lemma py_str_fits:
  "(case py_str n of Inl e \<Rightarrow> A e | Inr x \<Rightarrow> B) = (if fits n then B else A ValueError)"
  by (simp add: py_str_def fits_def Let_def)

lemma dumpable_fits:
  "dumpable s = (fits (berries_total s) \<and> fits (crystals_total s)
                 \<and> list_all (\<lambda>e. fits (amount_of e)) (events s))"
  by (simp add: dumpable_def py_str_def fits_def Let_def)

lemma py_int_amount:
  "digits d \<Longrightarrow> py_int d = (if length d \<le> INT_MAX_STR_DIGITS then Inr (amount d) else Inl ValueError)"
  by (simp add: py_int_def digits_def amount_def)


subsection \<open>One call of the extractor\<close>

lemma found_berries_cases:
  obtains "found RE_BERRIES 3 txt = []"
  | d where "found RE_BERRIES 3 txt = [d]" "digits d" "length d \<le> length txt"
  using found_cases[of RE_BERRIES 3 "txt"] found_digits[OF digit_groups_BERRIES, of 3 "txt"]
    found_short[of RE_BERRIES 3 "txt"]
  by blast

lemma found_crystals_cases:
  obtains "found RE_CRYSTALS 2 txt = []"
  | d where "found RE_CRYSTALS 2 txt = [d]" "digits d" "length d \<le> length txt"
  using found_cases[of RE_CRYSTALS 2 "txt"] found_digits[OF digit_groups_CRYSTALS, of 2 "txt"]
    found_short[of RE_CRYSTALS 2 "txt"]
  by blast

lemma found_waifu_cases:
  obtains "found RE_WAIFU 2 txt = []" | w where "found RE_WAIFU 2 txt = [w]"
  using found_cases[of RE_WAIFU 2 "txt"] by blast

lemmas part_defs = recorded_def berries_part_def crystals_part_def waifu_part_def and_then_def

lemma extract_and_record_recorded:
  "\<exists>lg'. extract_and_record rd txt (s, lg) = (fst (recorded rd txt s), snd (recorded rd txt s), lg')"
  unfolding extract_and_record_def lookup_found py_str_fits
  by (cases rule: found_berries_cases[of "txt"]; cases rule: found_crystals_cases[of "txt"];
      cases rule: found_waifu_cases[of "txt"])
     (simp_all add: part_defs py_int_amount Let_def)

lemma extract_and_record2_recorded:
  "\<exists>lg'. extract_and_record2 rd txt (s, lg) = (fst (recorded rd txt s), snd (recorded rd txt s), lg')"
  unfolding extract_and_record2_def lookup_found py_str_fits
  by (cases rule: found_berries_cases[of "txt"]; cases rule: found_crystals_cases[of "txt"];
      cases rule: found_waifu_cases[of "txt"])
     (simp_all add: part_defs py_int_amount Let_def)

lemma extract_of_recorded:
  "\<exists>lg'. extract_of f rd txt (s, lg) = (fst (recorded rd txt s), snd (recorded rd txt s), lg')"
  using extract_and_record_recorded extract_and_record2_recorded
  by (cases f) (simp_all add: extract_of_def)

lemma recorded_outcome: "fst (recorded rd txt s) = None \<or> fst (recorded rd txt s) = Some ValueError"
  by (cases rule: found_berries_cases[of "txt"]; cases rule: found_crystals_cases[of "txt"])
     (simp_all add: part_defs py_int_amount Let_def)

lemma total_of_Nil: "total_of k [] = 0"
  by (simp add: total_of_def)

lemma total_of_append: "total_of k (xs @ ys) = total_of k xs + total_of k ys"
  by (simp add: total_of_def)

lemma total_of_single:
  "total_of k [e] = (if event_type e = k then amount_of e else 0)"
  by (simp add: total_of_def)

lemma recorded_balanced: "balanced s \<Longrightarrow> balanced (snd (recorded rd txt s))"
  by (cases rule: found_berries_cases[of "txt"]; cases rule: found_crystals_cases[of "txt"];
      cases rule: found_waifu_cases[of "txt"])
     (simp_all add: part_defs py_int_amount Let_def balanced_def total_of_def)

lemma recorded_berries_mono: "berries_total s \<le> berries_total (snd (recorded rd txt s))"
  by (cases rule: found_berries_cases[of "txt"]; cases rule: found_crystals_cases[of "txt"];
      cases rule: found_waifu_cases[of "txt"])
     (simp_all add: part_defs py_int_amount Let_def amount_nonneg)

lemma recorded_crystals_mono: "crystals_total s \<le> crystals_total (snd (recorded rd txt s))"
  by (cases rule: found_berries_cases[of "txt"]; cases rule: found_crystals_cases[of "txt"];
      cases rule: found_waifu_cases[of "txt"])
     (simp_all add: part_defs py_int_amount Let_def amount_nonneg)

lemma recorded_events:
  "take (length (events s)) (events (snd (recorded rd txt s))) = events s
   \<and> prefix (drop (length (events s)) (events (snd (recorded rd txt s)))) (new_events rd txt)"
  by (cases rule: found_berries_cases[of "txt"]; cases rule: found_crystals_cases[of "txt"];
      cases rule: found_waifu_cases[of "txt"])
     (simp_all add: part_defs py_int_amount Let_def new_events_def)

lemma recorded_returned:
  "fst (recorded rd txt s) = None
   \<Longrightarrow> events (snd (recorded rd txt s)) = events s @ new_events rd txt"
  by (cases rule: found_berries_cases[of "txt"]; cases rule: found_crystals_cases[of "txt"];
      cases rule: found_waifu_cases[of "txt"])
     (simp_all add: part_defs py_int_amount Let_def new_events_def split: if_splits)

lemma recorded_types:
  "map event_type (drop (length (events s)) (events (snd (recorded rd txt s))))
     \<in> {[], [Berries], [Crystals], [Waifu], [Berries, Crystals], [Berries, Waifu],
         [Crystals, Waifu], [Berries, Crystals, Waifu]}"
  by (cases rule: found_berries_cases[of "txt"]; cases rule: found_crystals_cases[of "txt"];
      cases rule: found_waifu_cases[of "txt"])
     (simp_all add: part_defs py_int_amount Let_def)

lemma fits_sum:
  assumes "0 \<le> t" "t + 10 ^ k \<le> 10 ^ INT_MAX_STR_DIGITS" "digits d" "length d \<le> k"
  shows "fits (t + amount d)"
proof -
  from amount_bound[OF assms(3)] have "amount d < 10 ^ length d" .
  also from assms(4) have "(10::int) ^ length d \<le> 10 ^ k" by (intro power_increasing) simp_all
  finally have "t + amount d < t + 10 ^ k" by simp
  with assms(2) have "t + amount d < 10 ^ INT_MAX_STR_DIGITS" by simp
  moreover from assms(1) amount_nonneg[of d] have "0 \<le> t + amount d" by simp
  ultimately show ?thesis by (intro fits_below)
qed

lemma amount_room:
  assumes "digits d" "length d \<le> k"
  shows "amount d \<le> 10 ^ k"
proof -
  from amount_bound[OF assms(1)] have "amount d < 10 ^ length d" .
  also from assms(2) have "(10::int) ^ length d \<le> 10 ^ k" by (intro power_increasing) simp_all
  finally show ?thesis by simp
qed

lemma recorded_returns:
  assumes "length txt \<le> INT_MAX_STR_DIGITS"
    "0 \<le> berries_total s" "berries_total s + 10 ^ length txt \<le> 10 ^ INT_MAX_STR_DIGITS"
    "0 \<le> crystals_total s" "crystals_total s + 10 ^ length txt \<le> 10 ^ INT_MAX_STR_DIGITS"
  shows "fst (recorded rd txt s) = None"
  using assms
  by (cases rule: found_berries_cases[of "txt"]; cases rule: found_crystals_cases[of "txt"])
     (simp_all add: part_defs py_int_amount Let_def fits_sum[where k = "length txt"])

lemma recorded_growth:
  "berries_total (snd (recorded rd txt s)) \<le> berries_total s + 10 ^ length txt
   \<and> crystals_total (snd (recorded rd txt s)) \<le> crystals_total s + 10 ^ length txt"
  by (cases rule: found_berries_cases[of "txt"]; cases rule: found_crystals_cases[of "txt"];
      cases rule: found_waifu_cases[of "txt"])
     (simp_all add: part_defs py_int_amount Let_def amount_room[where k = "length txt"])

lemma recorded_fresh:
  assumes "fst (recorded rd txt s) = None"
  shows "recorded rd txt empty_summary
           = (None, empty_summary\<lparr>berries_total := sum_list (map amount (found RE_BERRIES 3 txt)),
                                   crystals_total := sum_list (map amount (found RE_CRYSTALS 2 txt)),
                                   waifus := waifus (waifu_part rd txt empty_summary),
                                   events := new_events rd txt\<rparr>)"
proof -
  have f: "fits (amount d)" if "digits d" "length d \<le> INT_MAX_STR_DIGITS" for d
  proof -
    from amount_bound[OF that(1)] have "amount d < 10 ^ length d" .
    also from that(2) have "(10::int) ^ length d \<le> 10 ^ INT_MAX_STR_DIGITS"
      by (intro power_increasing) simp_all
    finally show ?thesis using amount_nonneg[of d] by (intro fits_below)
  qed
  from assms show ?thesis
    by (cases rule: found_berries_cases[of "txt"]; cases rule: found_crystals_cases[of "txt"];
        cases rule: found_waifu_cases[of "txt"])
       (simp_all add: part_defs py_int_amount Let_def new_events_def empty_summary_def f
          split: if_splits)
qed

subsection \<open>Sequences of calls\<close>

lemma record_all_append: "record_all f (xs @ ys) st = record_all f ys (record_all f xs st)"
  by (induction f xs st rule: record_all.induct) simp_all

lemma record_all_balanced: "balanced s \<Longrightarrow> balanced (fst (record_all f calls (s, lg)))"
proof (induction calls arbitrary: s lg)
  case Nil
  then show ?case by simp
next
  case (Cons call calls)
  obtain rd tx where call: "call = (rd, tx)" by (cases call)
  from extract_of_recorded obtain lg1 where
    1: "extract_of f rd tx (s, lg) = (fst (recorded rd tx s), snd (recorded rd tx s), lg1)" by blast
  from recorded_balanced[OF Cons.prems] have "balanced (snd (recorded rd tx s))" .
  from Cons.IH[OF this] show ?case by (simp add: call 1)
qed

lemma record_all_mono:
  "berries_total s \<le> berries_total (fst (record_all f calls (s, lg)))
   \<and> crystals_total s \<le> crystals_total (fst (record_all f calls (s, lg)))"
proof (induction calls arbitrary: s lg)
  case Nil
  then show ?case by simp
next
  case (Cons call calls)
  obtain rd tx where call: "call = (rd, tx)" by (cases call)
  from extract_of_recorded obtain lg1 where
    1: "extract_of f rd tx (s, lg) = (fst (recorded rd tx s), snd (recorded rd tx s), lg1)" by blast
  from Cons.IH[of "snd (recorded rd tx s)" lg1]
    recorded_berries_mono[of s rd tx] recorded_crystals_mono[of s rd tx]
  show ?case by (simp add: call 1)
qed

lemma record_all_events:
  "\<exists>ps. events (fst (record_all f calls (s, lg))) = events s @ concat ps
        \<and> list_all2 (\<lambda>p (rd, txt). prefix p (new_events rd txt)) ps calls"
proof (induction calls arbitrary: s lg)
  case Nil
  then show ?case by simp
next
  case (Cons call calls)
  obtain rd tx where call: "call = (rd, tx)" by (cases call)
  from extract_of_recorded obtain lg1 where
    1: "extract_of f rd tx (s, lg) = (fst (recorded rd tx s), snd (recorded rd tx s), lg1)" by blast
  define p where "p = drop (length (events s)) (events (snd (recorded rd tx s)))"
  from recorded_events[of s rd tx]
  have t: "take (length (events s)) (events (snd (recorded rd tx s))) = events s"
    and pp: "prefix p (new_events rd tx)" by (simp_all add: p_def)
  have e1: "events (snd (recorded rd tx s)) = events s @ p"
    using append_take_drop_id[of "length (events s)" "events (snd (recorded rd tx s))"]
    by (simp add: t p_def)
  from Cons.IH[of "snd (recorded rd tx s)" lg1] obtain ps where
    2: "events (fst (record_all f calls (snd (recorded rd tx s), lg1)))
          = events (snd (recorded rd tx s)) @ concat ps"
    and 3: "list_all2 (\<lambda>p (rd, txt). prefix p (new_events rd txt)) ps calls" by blast
  from 2 e1 have "events (fst (record_all f (call # calls) (s, lg))) = events s @ concat (p # ps)"
    by (simp add: call 1)
  moreover from pp 3 have "list_all2 (\<lambda>p (rd, txt). prefix p (new_events rd txt)) (p # ps) (call # calls)"
    by (simp add: call)
  ultimately show ?case by blast
qed

lemma record_all_returned:
  "list_all (\<lambda>out. out = None) (outcomes f calls (s, lg))
   \<Longrightarrow> events (fst (record_all f calls (s, lg)))
       = events s @ concat (map (\<lambda>(rd, txt). events (fst (snd (extract_of f rd txt (empty_summary, []))))) calls)"
proof (induction calls arbitrary: s lg)
  case Nil
  then show ?case by simp
next
  case (Cons call calls)
  obtain rd tx where call: "call = (rd, tx)" by (cases call)
  from extract_of_recorded obtain lg1 where
    1: "extract_of f rd tx (s, lg) = (fst (recorded rd tx s), snd (recorded rd tx s), lg1)" by blast
  from Cons.prems have ok: "fst (recorded rd tx s) = None"
    and rest: "list_all (\<lambda>out. out = None) (outcomes f calls (snd (recorded rd tx s), lg1))"
    by (simp_all add: call 1)
  from extract_of_recorded obtain lg0 where
    "extract_of f rd tx (empty_summary, []) =
       (fst (recorded rd tx empty_summary), snd (recorded rd tx empty_summary), lg0)" by blast
  with recorded_fresh[OF ok]
  have fresh: "events (fst (snd (extract_of f rd tx (empty_summary, [])))) = new_events rd tx"
    by simp
  from Cons.IH[OF rest] recorded_returned[OF ok] fresh
  show ?case by (simp add: call 1)
qed


subsection \<open>Room below the conversion limit\<close>

lemma answer_room_nonneg: "0 \<le> answer_room"
  unfolding answer_room_def by (rule zero_le_power) simp

lemma answer_room_covers: "length txt \<le> 200 \<Longrightarrow> (10::int) ^ length txt \<le> answer_room"
  unfolding answer_room_def by (rule power_increasing) simp_all

lemma answer_room_below: "answer_room \<le> 10 ^ INT_MAX_STR_DIGITS"
  unfolding answer_room_def by (rule power_increasing) (simp_all add: INT_MAX_STR_DIGITS_def)

lemma headroom_mono:
  assumes "j \<le> k" "headroom k s"
  shows "headroom j s"
proof -
  from assms(1) have "int j * answer_room \<le> int k * answer_room"
    by (intro mult_right_mono answer_room_nonneg) simp
  with assms(2) show ?thesis unfolding headroom_def by linarith
qed

lemma headroom_empty: "headroom 1 empty_summary"
  using answer_room_below by (simp add: headroom_def empty_summary_def)

lemma headroom_step:
  assumes "headroom (Suc j) s" "length txt \<le> 200"
  shows "fst (recorded rd txt s) = None \<and> headroom j (snd (recorded rd txt s))"
proof -
  have e: "int (Suc j) * answer_room = int j * answer_room + answer_room"
    by (simp add: algebra_simps)
  from assms(1) have h: "0 \<le> berries_total s"
    "berries_total s + (int j * answer_room + answer_room) \<le> 10 ^ INT_MAX_STR_DIGITS"
    "0 \<le> crystals_total s"
    "crystals_total s + (int j * answer_room + answer_room) \<le> 10 ^ INT_MAX_STR_DIGITS"
    unfolding headroom_def e by blast+
  have jr: "0 \<le> int j * answer_room" using answer_room_nonneg by simp
  note r = answer_room_covers[OF assms(2)]
  from h jr r have b: "berries_total s + 10 ^ length txt \<le> 10 ^ INT_MAX_STR_DIGITS"
    and c: "crystals_total s + 10 ^ length txt \<le> 10 ^ INT_MAX_STR_DIGITS" by linarith+
  from assms(2) have len: "length txt \<le> INT_MAX_STR_DIGITS" by (simp add: INT_MAX_STR_DIGITS_def)
  from recorded_returns[OF len h(1) b h(3) c] have 1: "fst (recorded rd txt s) = None" .
  from recorded_growth[of rd "txt" s] recorded_berries_mono[of s rd "txt"]
    recorded_crystals_mono[of s rd "txt"] h r
  have "headroom j (snd (recorded rd txt s))" unfolding headroom_def by linarith
  with 1 show ?thesis by blast
qed

lemma str_nat_short: "n \<le> 800 \<Longrightarrow> length (str_nat n) \<le> 3"
  by (rule str_nat_length) simp_all

subsection \<open>Sends, the loop body and the loops\<close>

lemma same_config_refl: "same_config m m"
  by (simp add: same_config_def)

lemma same_config_trans: "same_config a b \<Longrightarrow> same_config b c \<Longrightarrow> same_config a c"
  by (simp add: same_config_def)

lemma simulate_send_steady:
  assumes "\<not> cancelled e" "c = ''/explore'' \<longrightarrow> sim_answer_ok e"
    "headroom (j + (if c = ''/explore'' then 1 else 0)) (summary m)"
  shows "\<exists>m'. simulate_send e c m = (None, m') \<and> same_config m m'
           \<and> last_sent m' = last_sent m \<and> running m' = (running m \<and> \<not> stop_called e)
           \<and> headroom j (summary m')"
proof (cases "c = ''/explore''")
  case True
  define m1 where "m1 = m\<lparr>running := running m \<and> \<not> stop_called e\<rparr>"
  define tx where "tx = sim_ts e @ '' [simulated session]: /explore result: '' @ PARTY_POPPER
                            @ '' You uncovered ancient ruins and discovered ''
                            @ str_nat (rand_berries e) @ '' Berries! '' @ MONEY_BAG"
  from True assms(2) have "length (sim_ts e) = 19" "length (str_nat (rand_berries e)) \<le> 3"
    by (simp_all add: sim_answer_ok_def str_nat_short)
  then have len: "length tx \<le> 200" by (simp add: tx_def PARTY_POPPER_def MONEY_BAG_def)
  from True assms(3) have "headroom (Suc j) (summary m1)" by (simp add: m1_def)
  from headroom_step[OF this len, of "sim_reads e"]
  have ok: "fst (recorded (sim_reads e) tx (summary m1)) = None"
    and hr: "headroom j (snd (recorded (sim_reads e) tx (summary m1)))" by blast+
  obtain lg' where "extract_and_record (sim_reads e) tx
      (summary m1, (logger m1 @ [Sim_sent (session_id m1) c]) @ [Sim_text tx])
      = (None, snd (recorded (sim_reads e) tx (summary m1)), lg')"
    using extract_and_record_recorded[of "sim_reads e" tx "summary m1"] ok by metis
  then have "simulate_send e c m
      = (None, m1\<lparr>summary := snd (recorded (sim_reads e) tx (summary m1)), logger := lg'\<rparr>)"
    using True assms(1)
    by (simp add: simulate_send_def suspend_def and_then_def with_sink_def Let_def m1_def tx_def)
  with hr show ?thesis by (simp add: m1_def same_config_def)
next
  case False
  with assms show ?thesis
    by (simp add: simulate_send_def suspend_def and_then_def Let_def same_config_def)
qed

lemma simulate_send2_steady:
  assumes "\<not> cancelled e" "c = ''/explore'' \<longrightarrow> sim_answer_ok e"
    "headroom (j + (if c = ''/explore'' then 1 else 0)) (summary m)"
  shows "\<exists>m'. simulate_send2 e c m = (None, m') \<and> same_config m m'
           \<and> last_sent m' = last_sent m \<and> running m' = (running m \<and> \<not> stop_called e)
           \<and> headroom j (summary m')"
proof (cases "c = ''/explore''")
  case True
  define m1 where "m1 = m\<lparr>running := running m \<and> \<not> stop_called e\<rparr>"
  define tx where "tx = sim_ts e @ '' [simulated session]: /explore result: '' @ PARTY_POPPER
                            @ '' You uncovered ruins and discovered ''
                            @ str_nat (rand_berries e) @ '' Berries! '' @ MONEY_BAG"
  from True assms(2) have "length (sim_ts e) = 19" "length (str_nat (rand_berries e)) \<le> 3"
    by (simp_all add: sim_answer_ok_def str_nat_short)
  then have len: "length tx \<le> 200" by (simp add: tx_def PARTY_POPPER_def MONEY_BAG_def)
  from True assms(3) have "headroom (Suc j) (summary m1)" by (simp add: m1_def)
  from headroom_step[OF this len, of "sim_reads e"]
  have ok: "fst (recorded (sim_reads e) tx (summary m1)) = None"
    and hr: "headroom j (snd (recorded (sim_reads e) tx (summary m1)))" by blast+
  obtain lg' where "extract_and_record2 (sim_reads e) tx
      (summary m1, (logger m1 @ [Sim_sent (session_id m1) c]) @ [Sim_text tx])
      = (None, snd (recorded (sim_reads e) tx (summary m1)), lg')"
    using extract_and_record2_recorded[of "sim_reads e" tx "summary m1"] ok by metis
  then have "simulate_send2 e c m
      = (None, m1\<lparr>summary := snd (recorded (sim_reads e) tx (summary m1)), logger := lg'\<rparr>)"
    using True assms(1)
    by (simp add: simulate_send2_def suspend_def and_then_def with_sink_def Let_def m1_def tx_def)
  with hr show ?thesis by (simp add: m1_def same_config_def)
next
  case False
  with assms show ?thesis
    by (simp add: simulate_send2_def suspend_def and_then_def Let_def same_config_def)
qed

lemma send_steady:
  assumes "steady e"
  shows "\<exists>m'. send e c m = (None, m') \<and> same_config m m' \<and> last_sent m' = last_sent m
           \<and> (\<not> stop_called e \<longrightarrow> running m' = running m)"
  using assms
  by (cases "send_result e")
     (simp_all add: send_def steady_def suspend_def and_then_def Let_def same_config_def)

lemma poll_steady:
  assumes "last_sent m c = Some t" "steady e"
    "simulate m \<longrightarrow> (c = ''/explore'' \<longrightarrow> sim_answer_ok e)
       \<and> headroom (j + (if c = ''/explore'' then 1 else 0)) (summary m)"
  shows "\<exists>m'. poll f now e c m = (expected now t c, None, m') \<and> same_config m m'
           \<and> last_sent m' = (if COMMAND_COOLDOWN \<le> total_seconds (now - t)
                              then (last_sent m)(c \<mapsto> clock_after e) else last_sent m)
           \<and> (\<not> stop_called e \<longrightarrow> running m' = running m)
           \<and> (\<not> COMMAND_COOLDOWN \<le> total_seconds (now - t) \<longrightarrow> summary m' = summary m)
           \<and> (simulate m \<longrightarrow> headroom j (summary m'))"
proof (cases "COMMAND_COOLDOWN \<le> total_seconds (now - t)")
  case due: True
  have "\<exists>m1. (if simulate m
               then (case f of B_m \<Rightarrow> simulate_send e c m | B_m2 \<Rightarrow> simulate_send2 e c m)
               else if real_client m then send e c m else (None, m)) = (None, m1)
         \<and> same_config m m1 \<and> last_sent m1 = last_sent m
         \<and> (\<not> stop_called e \<longrightarrow> running m1 = running m)
         \<and> (simulate m \<longrightarrow> headroom j (summary m1))"
  proof (cases "simulate m")
    case True
    from assms(2) have nc: "\<not> cancelled e" by (simp add: steady_def)
    from True assms(3) have ok: "c = ''/explore'' \<longrightarrow> sim_answer_ok e"
      and hr: "headroom (j + (if c = ''/explore'' then 1 else 0)) (summary m)" by blast+
    show ?thesis
      using True simulate_send_steady[OF nc ok hr] simulate_send2_steady[OF nc ok hr]
      by (cases f) auto
  next
    case False
    show ?thesis
    proof (cases "real_client m")
      case True
      with False send_steady[OF assms(2), of c m] show ?thesis by auto
    next
      case False
      with \<open>\<not> simulate m\<close> show ?thesis by (simp add: same_config_def)
    qed
  qed
  then obtain m1 where 1: "(if simulate m
               then (case f of B_m \<Rightarrow> simulate_send e c m | B_m2 \<Rightarrow> simulate_send2 e c m)
               else if real_client m then send e c m else (None, m)) = (None, m1)"
    and 2: "same_config m m1" "last_sent m1 = last_sent m"
      "\<not> stop_called e \<longrightarrow> running m1 = running m"
      "simulate m \<longrightarrow> headroom j (summary m1)"
    by blast
  have "poll f now e c m
      = ([Dispatch c], None, m1\<lparr>last_sent := (last_sent m1)(c \<mapsto> clock_after e)\<rparr>)"
    unfolding poll_def using assms(1) due 1 by (simp add: and_then_def Let_def)
  with due 2 show ?thesis by (simp add: expected_def same_config_def)
next
  case False
  from assms(3) have "simulate m \<longrightarrow> headroom j (summary m)"
    using headroom_mono[of j "j + (if c = ''/explore'' then 1 else 0)" "summary m"] by auto
  with False assms(1) show ?thesis
    by (simp add: poll_def expected_def Let_def same_config_def)
qed

lemma explores_Cons: "explores (c # cs) = explores cs + (if c = ''/explore'' then 1 else 0)"
  by (simp add: explores_def)

lemma explores_distinct: "distinct cs \<Longrightarrow> explores cs \<le> 1"
  by (induction cs) (auto simp: explores_def)

lemma for_commands_steady:
  assumes "set cs \<subseteq> dom (last_sent m)" "\<forall>c\<in>set cs. steady (env c)"
    "simulate m \<longrightarrow> sim_answer_ok (env ''/explore'') \<and> headroom (j + explores cs) (summary m)"
  shows "\<exists>tr m'. for_commands f now env cs m = (tr, None, m') \<and> same_config m m'
           \<and> dom (last_sent m') = dom (last_sent m)
           \<and> ((\<forall>c\<in>set cs. \<not> stop_called (env c)) \<longrightarrow> running m' = running m)
           \<and> (simulate m \<longrightarrow> headroom j (summary m'))"
  using assms
proof (induction cs arbitrary: m)
  case Nil
  then show ?case by (simp add: same_config_refl explores_def)
next
  case (Cons c cs)
  show ?case
  proof (cases "running m")
    case False
    from Cons.prems(3) have "simulate m \<longrightarrow> headroom j (summary m)"
      using headroom_mono[of j "j + explores (c # cs)" "summary m"] by auto
    with False show ?thesis by (simp add: same_config_refl)
  next
    case True
    from Cons.prems obtain t where t: "last_sent m c = Some t" by auto
    from Cons.prems have st: "steady (env c)" by simp
    from Cons.prems(3)
    have sr: "simulate m \<longrightarrow> (c = ''/explore'' \<longrightarrow> sim_answer_ok (env c))
       \<and> headroom ((j + explores cs) + (if c = ''/explore'' then 1 else 0)) (summary m)"
      by (auto simp: explores_Cons add.assoc)
    from poll_steady[OF t st sr, of f now] obtain m1 where
      p: "poll f now (env c) c m = (expected now t c, None, m1)" and c1: "same_config m m1"
      and l1: "last_sent m1 = (if COMMAND_COOLDOWN \<le> total_seconds (now - t)
                              then (last_sent m)(c \<mapsto> clock_after (env c)) else last_sent m)"
      and r1: "\<not> stop_called (env c) \<longrightarrow> running m1 = running m"
      and h1: "simulate m \<longrightarrow> headroom (j + explores cs) (summary m1)"
      by blast
    from l1 t have d1: "dom (last_sent m1) = dom (last_sent m)" by auto
    from c1 have s1: "simulate m1 = simulate m" by (simp add: same_config_def)
    from Cons.prems d1 h1 s1 have "set cs \<subseteq> dom (last_sent m1)" "\<forall>c\<in>set cs. steady (env c)"
      "simulate m1 \<longrightarrow> sim_answer_ok (env ''/explore'') \<and> headroom (j + explores cs) (summary m1)"
      by auto
    from Cons.IH[OF this] obtain tr m' where
      r: "for_commands f now env cs m1 = (tr, None, m')" and c2: "same_config m1 m'"
      and d2: "dom (last_sent m') = dom (last_sent m1)"
      and r2: "(\<forall>c\<in>set cs. \<not> stop_called (env c)) \<longrightarrow> running m' = running m1"
      and h2: "simulate m1 \<longrightarrow> headroom j (summary m')" by blast
    from True p r have "for_commands f now env (c # cs) m = (expected now t c @ tr, None, m')"
      by simp
    with same_config_trans[OF c1 c2] d1 d2 r1 r2 h2 s1 show ?thesis by simp
  qed
qed

lemma for_commands_calm:
  assumes "running m" "distinct cs" "set cs \<subseteq> dom (last_sent m)" "\<forall>c\<in>set cs. calm (env c)"
    "simulate m \<longrightarrow> sim_answer_ok (env ''/explore'') \<and> headroom (explores cs) (summary m)"
  shows "\<exists>m'. for_commands f now env cs m
             = (concat (map (\<lambda>c. expected now (the (last_sent m c)) c) cs), None, m')
           \<and> same_config m m' \<and> running m'
           \<and> (\<forall>c. last_sent m' c
                 = (if c \<in> set cs \<and> COMMAND_COOLDOWN \<le> total_seconds (now - the (last_sent m c))
                    then Some (clock_after (env c)) else last_sent m c))"
  using assms
proof (induction cs arbitrary: m)
  case Nil
  then show ?case by (simp add: same_config_refl)
next
  case (Cons c cs)
  from Cons.prems obtain t where t: "last_sent m c = Some t" by auto
  from Cons.prems have st: "steady (env c)" and ns: "\<not> stop_called (env c)"
    by (simp_all add: calm_def)
  from Cons.prems(5)
  have sr: "simulate m \<longrightarrow> (c = ''/explore'' \<longrightarrow> sim_answer_ok (env c))
       \<and> headroom (explores cs + (if c = ''/explore'' then 1 else 0)) (summary m)"
    by (auto simp: explores_Cons)
  from poll_steady[OF t st sr, of f now] ns obtain m1 where
    p: "poll f now (env c) c m = (expected now t c, None, m1)" and c1: "same_config m m1"
    and l1: "last_sent m1 = (if COMMAND_COOLDOWN \<le> total_seconds (now - t)
                            then (last_sent m)(c \<mapsto> clock_after (env c)) else last_sent m)"
    and r1: "running m1 = running m"
    and h1: "simulate m \<longrightarrow> headroom (explores cs) (summary m1)"
    by blast
  from Cons.prems have notin: "c \<notin> set cs" by simp
  from l1 have other: "\<And>d. d \<noteq> c \<Longrightarrow> last_sent m1 d = last_sent m d" by simp
  from l1 t have d1: "dom (last_sent m1) = dom (last_sent m)" by auto
  from c1 have s1: "simulate m1 = simulate m" by (simp add: same_config_def)
  from Cons.prems r1 d1 h1 s1 have "running m1" "distinct cs" "set cs \<subseteq> dom (last_sent m1)"
    "\<forall>c\<in>set cs. calm (env c)"
    "simulate m1 \<longrightarrow> sim_answer_ok (env ''/explore'') \<and> headroom (explores cs) (summary m1)"
    by auto
  from Cons.IH[OF this] obtain m' where
    r: "for_commands f now env cs m1
          = (concat (map (\<lambda>c. expected now (the (last_sent m1 c)) c) cs), None, m')"
    and c2: "same_config m1 m'" and r2: "running m'"
    and l2: "\<forall>d. last_sent m' d
                 = (if d \<in> set cs \<and> COMMAND_COOLDOWN \<le> total_seconds (now - the (last_sent m1 d))
                    then Some (clock_after (env d)) else last_sent m1 d)"
    by blast
  have same: "map (\<lambda>c. expected now (the (last_sent m1 c)) c) cs
            = map (\<lambda>c. expected now (the (last_sent m c)) c) cs"
  proof (rule map_cong[OF refl])
    fix x assume "x \<in> set cs"
    with notin have "x \<noteq> c" by blast
    then show "expected now (the (last_sent m1 x)) x = expected now (the (last_sent m x)) x"
      by (simp add: other)
  qed
  from Cons.prems(1) p r t
  have "for_commands f now env (c # cs) m
      = (concat (map (\<lambda>c. expected now (the (last_sent m c)) c) (c # cs)), None, m')"
    by (simp add: same)
  moreover have "\<forall>d. last_sent m' d
                 = (if d \<in> set (c # cs) \<and> COMMAND_COOLDOWN \<le> total_seconds (now - the (last_sent m d))
                    then Some (clock_after (env d)) else last_sent m d)"
  proof
    fix d
    show "last_sent m' d
                 = (if d \<in> set (c # cs) \<and> COMMAND_COOLDOWN \<le> total_seconds (now - the (last_sent m d))
                    then Some (clock_after (env d)) else last_sent m d)"
    proof (cases "d = c")
      case True
      with l2 notin l1 t show ?thesis by simp
    next
      case False
      with l2 other show ?thesis by simp
    qed
  qed
  ultimately show ?case using same_config_trans[OF c1 c2] r2 by blast
qed


lemma loop_steady:
  assumes "set (commands m) \<subseteq> dom (last_sent m)"
    "\<forall>t\<in>set ts. \<not> cancelled (nap t) \<and> (\<forall>c\<in>set (commands m). steady (dispatches t c))"
    "simulate m \<longrightarrow> (\<forall>t\<in>set ts. sim_answer_ok (dispatches t ''/explore''))
       \<and> headroom (length ts * explores (commands m)) (summary m)"
  shows "fst (snd (loop f ts m)) = Exited \<or> fst (snd (loop f ts m)) = Pending"
  using assms
proof (induction ts arbitrary: m)
  case Nil
  then show ?case by simp
next
  case (Cons t ts)
  show ?case
  proof (cases "running m")
    case False
    then show ?thesis by simp
  next
    case True
    from Cons.prems have st: "\<forall>c\<in>set (commands m). steady (dispatches t c)" by simp
    from Cons.prems(3)
    have sr: "simulate m \<longrightarrow> sim_answer_ok (dispatches t ''/explore'')
       \<and> headroom (length ts * explores (commands m) + explores (commands m)) (summary m)"
      by (auto simp: add.commute)
    from for_commands_steady[OF Cons.prems(1) st sr, of f "clock_now t"] obtain tr m1 where
      fc: "for_commands f (clock_now t) (dispatches t) (commands m) m = (tr, None, m1)"
      and c1: "same_config m m1" and d1: "dom (last_sent m1) = dom (last_sent m)"
      and h1: "simulate m \<longrightarrow> headroom (length ts * explores (commands m)) (summary m1)" by blast
    define m2 where "m2 = m1\<lparr>running := running m1 \<and> \<not> stop_called (nap t)\<rparr>"
    from Cons.prems have sp: "suspend (nap t) m1 = (None, m2)"
      by (simp add: suspend_def m2_def)
    from c1 have cm: "commands m2 = commands m" "simulate m2 = simulate m"
      by (simp_all add: m2_def same_config_def)
    from d1 have "dom (last_sent m2) = dom (last_sent m)" by (simp add: m2_def)
    with Cons.prems cm h1 have "set (commands m2) \<subseteq> dom (last_sent m2)"
      "\<forall>t\<in>set ts. \<not> cancelled (nap t) \<and> (\<forall>c\<in>set (commands m2). steady (dispatches t c))"
      "simulate m2 \<longrightarrow> (\<forall>t\<in>set ts. sim_answer_ok (dispatches t ''/explore''))
         \<and> headroom (length ts * explores (commands m2)) (summary m2)"
      by (auto simp: m2_def)
    from Cons.IH[OF this] have ih: "fst (snd (loop f ts m2)) = Exited \<or> fst (snd (loop f ts m2)) = Pending" .
    obtain b r m3 where l: "loop f ts m2 = (b, r, m3)" by (cases "loop f ts m2") auto
    with True fc sp have "loop f (t # ts) m = (tr @ b, r, m3)" by simp
    with ih l show ?thesis by simp
  qed
qed

lemma loop_calm:
  assumes "running m" "set (commands m) \<subseteq> dom (last_sent m)"
    "\<forall>t\<in>set ts. calm_tick (commands m) t"
    "simulate m \<longrightarrow> (\<forall>t\<in>set ts. sim_answer_ok (dispatches t ''/explore''))
       \<and> headroom (length ts * explores (commands m)) (summary m)"
  shows "fst (snd (loop f ts m)) = Pending \<and> running (snd (snd (loop f ts m)))"
  using assms
proof (induction ts arbitrary: m)
  case Nil
  then show ?case by simp
next
  case (Cons t ts)
  from Cons.prems have ct: "calm_tick (commands m) t" by simp
  then have calm: "\<forall>c\<in>set (commands m). calm (dispatches t c)"
    by (simp add: calm_tick_def list_all_iff)
  then have st: "\<forall>c\<in>set (commands m). steady (dispatches t c)"
    and ns: "\<forall>c\<in>set (commands m). \<not> stop_called (dispatches t c)"
    by (simp_all add: calm_def)
  from Cons.prems(4)
  have sr: "simulate m \<longrightarrow> sim_answer_ok (dispatches t ''/explore'')
     \<and> headroom (length ts * explores (commands m) + explores (commands m)) (summary m)"
    by (auto simp: add.commute)
  from for_commands_steady[OF Cons.prems(2) st sr, of f "clock_now t"] ns obtain tr m1 where
    fc: "for_commands f (clock_now t) (dispatches t) (commands m) m = (tr, None, m1)"
    and c1: "same_config m m1" and d1: "dom (last_sent m1) = dom (last_sent m)"
    and r1: "running m1 = running m"
    and h1: "simulate m \<longrightarrow> headroom (length ts * explores (commands m)) (summary m1)" by blast
  from ct have sp: "suspend (nap t) m1 = (None, m1)"
    by (simp add: suspend_def calm_tick_def)
  from c1 have cm: "commands m1 = commands m" "simulate m1 = simulate m"
    by (simp_all add: same_config_def)
  with Cons.prems r1 d1 h1 have "running m1" "set (commands m1) \<subseteq> dom (last_sent m1)"
    "\<forall>t\<in>set ts. calm_tick (commands m1) t"
    "simulate m1 \<longrightarrow> (\<forall>t\<in>set ts. sim_answer_ok (dispatches t ''/explore''))
       \<and> headroom (length ts * explores (commands m1)) (summary m1)"
    by auto
  from Cons.IH[OF this]
  have ih: "fst (snd (loop f ts m1)) = Pending \<and> running (snd (snd (loop f ts m1)))" .
  obtain b r m3 where l: "loop f ts m1 = (b, r, m3)" by (cases "loop f ts m1") auto
  with Cons.prems(1) fc sp have "loop f (t # ts) m = (tr @ b, r, m3)" by simp
  with ih l show ?case by simp
qed

lemma Dispatch_expected:
  "Dispatch c \<in> set (concat (map (\<lambda>d. expected now (the (last_sent m d)) d) cs))
     = (c \<in> set cs \<and> COMMAND_COOLDOWN \<le> total_seconds (now - the (last_sent m c)))"
  by (auto simp: expected_def split: if_splits)

lemma Notice_expected:
  "Notice c \<in> set (concat (map (\<lambda>d. expected now (the (last_sent m d)) d) cs))
     = (c \<in> set cs \<and> \<not> COMMAND_COOLDOWN \<le> total_seconds (now - the (last_sent m c))
        \<and> COMMAND_COOLDOWN - total_seconds (now - the (last_sent m c)) < ALMOST_READY_THRESHOLD)"
  by (auto simp: expected_def split: if_splits)








subsection \<open>A call on the empty summary, and a long amount\<close>

lemma fits_amount:
  assumes "digits d" "length d \<le> INT_MAX_STR_DIGITS"
  shows "fits (amount d)"
proof -
  from amount_bound[OF assms(1)] have "amount d < 10 ^ length d" .
  also from assms(2) have "(10::int) ^ length d \<le> 10 ^ INT_MAX_STR_DIGITS"
    by (intro power_increasing) simp_all
  finally show ?thesis using amount_nonneg[of d] by (intro fits_below)
qed

lemma recorded_prefix_fresh:
  "prefix (drop (length (events s)) (events (snd (recorded rd txt s))))
          (events (snd (recorded rd txt empty_summary)))"
  by (cases rule: found_berries_cases[of "txt"]; cases rule: found_crystals_cases[of "txt"];
      cases rule: found_waifu_cases[of "txt"])
     (simp_all add: part_defs py_int_amount Let_def empty_summary_def fits_amount)

lemma record_all_fresh:
  "\<exists>ps. events (fst (record_all f calls (s, lg))) = events s @ concat ps
        \<and> list_all2 (\<lambda>p (rd, txt). prefix p (events (fst (snd (extract_of f rd txt (empty_summary, []))))))
            ps calls"
proof (induction calls arbitrary: s lg)
  case Nil
  then show ?case by simp
next
  case (Cons call calls)
  obtain rd tx where call: "call = (rd, tx)" by (cases call)
  from extract_of_recorded obtain lg1 where
    1: "extract_of f rd tx (s, lg) = (fst (recorded rd tx s), snd (recorded rd tx s), lg1)" by blast
  from extract_of_recorded obtain lg0 where
    0: "extract_of f rd tx (empty_summary, []) =
       (fst (recorded rd tx empty_summary), snd (recorded rd tx empty_summary), lg0)" by blast
  define p where "p = drop (length (events s)) (events (snd (recorded rd tx s)))"
  from recorded_events[of s rd tx]
  have t: "take (length (events s)) (events (snd (recorded rd tx s))) = events s"
    by simp
  from recorded_prefix_fresh[of s rd tx] 0
  have pp: "prefix p (events (fst (snd (extract_of f rd tx (empty_summary, [])))))"
    by (simp add: p_def)
  have e1: "events (snd (recorded rd tx s)) = events s @ p"
    using append_take_drop_id[of "length (events s)" "events (snd (recorded rd tx s))"]
    by (simp add: t p_def)
  from Cons.IH[of "snd (recorded rd tx s)" lg1] obtain ps where
    2: "events (fst (record_all f calls (snd (recorded rd tx s), lg1)))
          = events (snd (recorded rd tx s)) @ concat ps"
    and 3: "list_all2 (\<lambda>p (rd, txt). prefix p (events (fst (snd (extract_of f rd txt (empty_summary, []))))))
              ps calls" by blast
  from 2 e1 have "events (fst (record_all f (call # calls) (s, lg))) = events s @ concat (p # ps)"
    by (simp add: call 1)
  moreover from pp 3
  have "list_all2 (\<lambda>p (rd, txt). prefix p (events (fst (snd (extract_of f rd txt (empty_summary, []))))))
          (p # ps) (call # calls)"
    by (simp add: call)
  ultimately show ?case by blast
qed

lemma rep_greedy_all:
  "list_all p ds \<Longrightarrow> ds \<noteq> [] \<Longrightarrow> \<exists>rest. rep_greedy p ds = [] # rest"
proof (induction ds)
  case Nil
  then show ?case by simp
next
  case (Cons x xs)
  show ?case
  proof (cases "xs = []")
    case True
    with Cons.prems show ?thesis by simp
  next
    case False
    with Cons obtain rest where "rep_greedy p xs = [] # rest" by auto
    with Cons.prems show ?thesis by simp
  qed
qed

lemma found_after_colon:
  assumes "digits ds"
  shows "found RE_BERRIES 3 (''Berries: '' @ ds) = [ds]"
proof -
  from assms have "list_all (cls_ok Digit) ds" "ds \<noteq> []"
    by (simp_all add: digits_def list_all_iff)
  from rep_greedy_all[OF this] obtain rest where r: "rep_greedy (cls_ok Digit) ds = [] # rest"
    by blast
  have l: "ascii_lower (CHR ''B'') \<noteq> ascii_lower (CHR ''d'')"
    "ascii_lower (CHR ''B'') \<noteq> ascii_lower (CHR ''Y'')"
    by code_simp+
  have "search RE_BERRIES 3 (''Berries: '' @ ds) = Some [None, None, Some ds]"
    by (simp add: RE_BERRIES_def seq_def word_def l r numeral_3_eq_3)
  with assms show ?thesis by (simp add: found_def digits_def)
qed

lemma sim_ready_tick:
  assumes "distinct cs" "sim_ready 1 e m"
  shows "simulate m \<longrightarrow> sim_answer_ok e \<and> headroom (explores cs) (summary m)"
  using assms headroom_mono[OF explores_distinct[OF assms(1)], of "summary m"]
  by (auto simp: sim_ready_def)



section \<open>Properties of the specification\<close>

text \<open>
  C1 (as the code has it). In a tick at time \<open>now\<close> during which the session stays running
  (no \<open>stop()\<close>, no cancellation, no exception out of a send; in simulation mode, the answer
  to \<open>/explore\<close> one the generator produces and the totals with room for it below the
  conversion limit), a configured command \<open>c\<close> is dispatched if and only if
  \<open>now - last_sent[c]\<close> is at least 125 seconds. After the dispatch \<open>last_sent[c]\<close> is the
  clock reading taken once the send has returned, the second \<open>datetime.now()\<close> of the loop
  body; a command that is not dispatched keeps its time.
\<close>

theorem dispatch_when_due:
  assumes "running m" "distinct (commands m)" "set (commands m) \<subseteq> dom (last_sent m)"
    "\<forall>d\<in>set (commands m). calm (env d)" "c \<in> set (commands m)" "last_sent m c = Some t"
    "sim_ready 1 (env ''/explore'') m"
  shows "(Dispatch c \<in> set (fst (for_commands f now env (commands m) m)))
           = (COMMAND_COOLDOWN \<le> total_seconds (now - t))
         \<and> last_sent (snd (snd (for_commands f now env (commands m) m))) c
           = (if COMMAND_COOLDOWN \<le> total_seconds (now - t) then Some (clock_after (env c))
              else Some t)"
proof -
  note sr = sim_ready_tick[OF assms(2,7)]
  from for_commands_calm[OF assms(1-4) sr, of f now] obtain m' where
    fc: "for_commands f now env (commands m) m
           = (concat (map (\<lambda>c. expected now (the (last_sent m c)) c) (commands m)), None, m')"
    and ls: "\<forall>c. last_sent m' c
                 = (if c \<in> set (commands m)
                       \<and> COMMAND_COOLDOWN \<le> total_seconds (now - the (last_sent m c))
                    then Some (clock_after (env c)) else last_sent m c)"
    by blast
  from fc have "fst (for_commands f now env (commands m) m)
           = concat (map (\<lambda>c. expected now (the (last_sent m c)) c) (commands m))"
    by simp
  then have "(Dispatch c \<in> set (fst (for_commands f now env (commands m) m)))
           = (c \<in> set (commands m) \<and> COMMAND_COOLDOWN \<le> total_seconds (now - the (last_sent m c)))"
    by (simp only: Dispatch_expected)
  with assms(5,6) have "(Dispatch c \<in> set (fst (for_commands f now env (commands m) m)))
           = (COMMAND_COOLDOWN \<le> total_seconds (now - t))"
    by simp
  moreover from fc ls have "last_sent (snd (snd (for_commands f now env (commands m) m))) c
           = (if COMMAND_COOLDOWN \<le> total_seconds (now - t) then Some (clock_after (env c))
              else Some t)"
    using assms(5,6) by simp
  ultimately show ?thesis by blast
qed

theorem dispatch_when_due_witness:
  "(Dispatch ''/dice'' \<in> set (fst (for_commands B_m 0 (\<lambda>_. example_env) (commands example_miner)
                                     example_miner)))
     = (COMMAND_COOLDOWN \<le> total_seconds (0 - datetime_min))
   \<and> COMMAND_COOLDOWN \<le> total_seconds (0 - datetime_min)
   \<and> last_sent (snd (snd (for_commands B_m 0 (\<lambda>_. example_env) (commands example_miner)
                             example_miner))) ''/dice''
     = Some (clock_after example_env)"
proof -
  have 1: "running example_miner" "distinct (commands example_miner)"
    "set (commands example_miner) \<subseteq> dom (last_sent example_miner)"
    "''/dice'' \<in> set (commands example_miner)"
    "last_sent example_miner ''/dice'' = Some datetime_min"
    by (simp_all add: example_miner_def)
  have 2: "\<forall>d\<in>set (commands example_miner). calm ((\<lambda>_. example_env) d)"
    by (simp add: calm_def steady_def example_env_def)
  have 3: "COMMAND_COOLDOWN \<le> total_seconds (0 - datetime_min)"
    by (simp add: COMMAND_COOLDOWN_def total_seconds_def datetime_min_def)
  have 4: "sim_ready 1 ((\<lambda>_. example_env) ''/explore'') example_miner"
    using headroom_empty
    by (simp add: sim_ready_def sim_answer_ok_def example_env_def example_miner_def)
  from dispatch_when_due[OF 1(1-3) 2 1(4,5) 4, of B_m 0] 3 show ?thesis by simp
qed

theorem dispatch_time_counterexample:
  "Dispatch ''/dice'' \<in> set (fst (for_commands B_m 0 (\<lambda>_. example_env) (commands example_miner)
                                    example_miner))
   \<and> last_sent (snd (snd (for_commands B_m 0 (\<lambda>_. example_env) (commands example_miner)
                             example_miner))) ''/dice''
     = Some 700000
   \<and> last_sent (snd (snd (for_commands B_m 0 (\<lambda>_. example_env) (commands example_miner)
                             example_miner))) ''/dice''
     \<noteq> Some 0"
proof -
  have due: "COMMAND_COOLDOWN \<le> total_seconds (0 - datetime_min)"
    by (simp add: COMMAND_COOLDOWN_def total_seconds_def datetime_min_def)
  have "for_commands B_m 0 (\<lambda>_. example_env) (commands example_miner) example_miner
      = ([Dispatch ''/dice'', Dispatch ''/lever''], None,
         example_miner\<lparr>logger := logger example_miner
            @ [Sim_sent ''s1'' ''/dice'',
               Sim_text (''2024-05-01 10:00:00 [simulated session]: '' @ ''/dice'' @ '' result: (simulated)''),
               Sim_sent ''s1'' ''/lever'',
               Sim_text (''2024-05-01 10:00:00 [simulated session]: '' @ ''/lever'' @ '' result: (simulated)'')],
           last_sent := (last_sent example_miner)(''/dice'' \<mapsto> 700000, ''/lever'' \<mapsto> 700000)\<rparr>)"
    using due
    by (simp add: example_miner_def example_env_def poll_def simulate_send_def suspend_def
        and_then_def Let_def)
  then show ?thesis by simp
qed

text \<open>
  C2 (as the code has it). In a tick during which the session stays running (in simulation
  mode, the answer to \<open>/explore\<close> one the generator produces and the totals with room for it
  below the conversion limit), the "almost ready" notice is written for a configured command
  \<open>c\<close> if and only if the remaining cooldown is above 0 and below 2 seconds: at 0 the command
  is dispatched instead. The branch that writes the notice adds one line to the log and
  leaves every other field, \<open>last_sent\<close> and the summary among them, as it was.
\<close>

theorem notice_when_almost_ready:
  assumes "running m" "distinct (commands m)" "set (commands m) \<subseteq> dom (last_sent m)"
    "\<forall>d\<in>set (commands m). calm (env d)" "c \<in> set (commands m)" "last_sent m c = Some t"
    "sim_ready 1 (env ''/explore'') m"
  shows "(Notice c \<in> set (fst (for_commands f now env (commands m) m)))
           = (0 < COMMAND_COOLDOWN - total_seconds (now - t)
              \<and> COMMAND_COOLDOWN - total_seconds (now - t) < ALMOST_READY_THRESHOLD)
         \<and> (fst (poll f now e c m) = [Notice c]
              \<longrightarrow> snd (poll f now e c m)
                    = (None, m\<lparr>logger := logger m
                         @ [Almost_ready c (COMMAND_COOLDOWN - total_seconds (now - t))]\<rparr>))"
proof -
  note sr = sim_ready_tick[OF assms(2,7)]
  from for_commands_calm[OF assms(1-4) sr, of f now] obtain m' where
    fc: "for_commands f now env (commands m) m
           = (concat (map (\<lambda>c. expected now (the (last_sent m c)) c) (commands m)), None, m')"
    by blast
  have pos: "(\<not> COMMAND_COOLDOWN \<le> total_seconds (now - t))
           = (0 < COMMAND_COOLDOWN - total_seconds (now - t))"
    by auto
  from fc have "fst (for_commands f now env (commands m) m)
           = concat (map (\<lambda>c. expected now (the (last_sent m c)) c) (commands m))"
    by simp
  then have "(Notice c \<in> set (fst (for_commands f now env (commands m) m)))
           = (c \<in> set (commands m) \<and> \<not> COMMAND_COOLDOWN \<le> total_seconds (now - the (last_sent m c))
              \<and> COMMAND_COOLDOWN - total_seconds (now - the (last_sent m c)) < ALMOST_READY_THRESHOLD)"
    by (simp only: Notice_expected)
  with assms(5,6) pos have "(Notice c \<in> set (fst (for_commands f now env (commands m) m)))
           = (0 < COMMAND_COOLDOWN - total_seconds (now - t)
              \<and> COMMAND_COOLDOWN - total_seconds (now - t) < ALMOST_READY_THRESHOLD)"
    by simp
  moreover have "fst (poll f now e c m) = [Notice c]
              \<longrightarrow> snd (poll f now e c m)
                    = (None, m\<lparr>logger := logger m
                         @ [Almost_ready c (COMMAND_COOLDOWN - total_seconds (now - t))]\<rparr>)"
    using assms(6) by (simp add: poll_def Let_def)
  ultimately show ?thesis by blast
qed

theorem notice_when_almost_ready_witness:
  "(Notice ''/dice'' \<in> set (fst (for_commands B_m2 124000000 (\<lambda>_. example_env)
        (commands (example_miner\<lparr>last_sent := map_of [(''/dice'', 0), (''/lever'', 124000000)]\<rparr>))
        (example_miner\<lparr>last_sent := map_of [(''/dice'', 0), (''/lever'', 124000000)]\<rparr>))))
     = (0 < COMMAND_COOLDOWN - total_seconds (124000000 - 0)
        \<and> COMMAND_COOLDOWN - total_seconds (124000000 - 0) < ALMOST_READY_THRESHOLD)
   \<and> 0 < COMMAND_COOLDOWN - total_seconds (124000000 - 0)
   \<and> COMMAND_COOLDOWN - total_seconds (124000000 - 0) < ALMOST_READY_THRESHOLD
   \<and> fst (poll B_m2 124000000 example_env ''/dice''
        (example_miner\<lparr>last_sent := map_of [(''/dice'', 0), (''/lever'', 124000000)]\<rparr>))
       = [Notice ''/dice'']
   \<and> snd (poll B_m2 124000000 example_env ''/dice''
        (example_miner\<lparr>last_sent := map_of [(''/dice'', 0), (''/lever'', 124000000)]\<rparr>))
       = (None, example_miner\<lparr>last_sent := map_of [(''/dice'', 0), (''/lever'', 124000000)],
                              logger := [Miner_started, Almost_ready ''/dice'' 1]\<rparr>)"
proof -
  define m where "m = example_miner\<lparr>last_sent := map_of [(''/dice'', 0), (''/lever'', 124000000)]\<rparr>"
  have 1: "running m" "distinct (commands m)" "set (commands m) \<subseteq> dom (last_sent m)"
    "''/dice'' \<in> set (commands m)" "last_sent m ''/dice'' = Some 0"
    by (simp_all add: m_def example_miner_def)
  have 2: "\<forall>d\<in>set (commands m). calm ((\<lambda>_. example_env) d)"
    by (simp add: calm_def steady_def example_env_def)
  have 3: "0 < COMMAND_COOLDOWN - total_seconds (124000000 - 0)"
    "COMMAND_COOLDOWN - total_seconds (124000000 - 0) < ALMOST_READY_THRESHOLD"
    "COMMAND_COOLDOWN - total_seconds (124000000 - 0) = 1"
    by (simp_all add: COMMAND_COOLDOWN_def ALMOST_READY_THRESHOLD_def total_seconds_def)
  have 4: "fst (poll B_m2 124000000 example_env ''/dice'' m) = [Notice ''/dice'']"
    using 3 1(5) by (simp add: poll_def Let_def)
  have 5: "sim_ready 1 ((\<lambda>_. example_env) ''/explore'') m"
    using headroom_empty
    by (simp add: sim_ready_def sim_answer_ok_def example_env_def example_miner_def m_def)
  from notice_when_almost_ready[OF 1(1-3) 2 1(4,5) 5, of B_m2 124000000 example_env] 3 4
  show ?thesis unfolding m_def by (simp add: example_miner_def)
qed

theorem notice_at_zero_counterexample:
  "0 \<le> COMMAND_COOLDOWN - total_seconds (125000000 - 0)
   \<and> COMMAND_COOLDOWN - total_seconds (125000000 - 0) < ALMOST_READY_THRESHOLD
   \<and> last_sent (example_miner\<lparr>last_sent := map_of [(''/dice'', 0), (''/lever'', 0)]\<rparr>) ''/dice''
       = Some 0
   \<and> fst (for_commands B_m 125000000 (\<lambda>_. example_env)
        (commands (example_miner\<lparr>last_sent := map_of [(''/dice'', 0), (''/lever'', 0)]\<rparr>))
        (example_miner\<lparr>last_sent := map_of [(''/dice'', 0), (''/lever'', 0)]\<rparr>))
       = [Dispatch ''/dice'', Dispatch ''/lever'']
   \<and> Notice ''/dice''
       \<notin> set (fst (for_commands B_m 125000000 (\<lambda>_. example_env)
             (commands (example_miner\<lparr>last_sent := map_of [(''/dice'', 0), (''/lever'', 0)]\<rparr>))
             (example_miner\<lparr>last_sent := map_of [(''/dice'', 0), (''/lever'', 0)]\<rparr>)))"
proof -
  have due: "COMMAND_COOLDOWN \<le> total_seconds (125000000 - 0)"
    "COMMAND_COOLDOWN - total_seconds (125000000 - 0) = 0"
    by (simp_all add: COMMAND_COOLDOWN_def total_seconds_def)
  have "fst (for_commands B_m 125000000 (\<lambda>_. example_env)
        (commands (example_miner\<lparr>last_sent := map_of [(''/dice'', 0), (''/lever'', 0)]\<rparr>))
        (example_miner\<lparr>last_sent := map_of [(''/dice'', 0), (''/lever'', 0)]\<rparr>))
       = [Dispatch ''/dice'', Dispatch ''/lever'']"
    using due(1)
    by (simp add: example_miner_def example_env_def poll_def simulate_send_def suspend_def
        and_then_def Let_def)
  with due show ?thesis
    by (simp add: ALMOST_READY_THRESHOLD_def example_miner_def)
qed

text \<open>
  C3. After any sequence of calls of \<open>extract_and_record\<close> (of either file) from the empty
  summary, whether or not some of the calls raised: \<open>berries_total\<close> is the sum of the
  amounts of the berries events in the log, \<open>crystals_total\<close> that of the crystals events,
  and \<open>waifus\<close> has one entry per waifu event. The log is in the order of the calls: it is
  made of one piece per call, the pieces in call order, each piece the first events of what
  that call logs from an empty summary, and all of them when no call raised. Further calls
  only add to the log and never make a total smaller.
\<close>

theorem aggregation_totals:
  "berries_total (summary_after f calls) = total_of Berries (events (summary_after f calls))
   \<and> crystals_total (summary_after f calls) = total_of Crystals (events (summary_after f calls))
   \<and> length (waifus (summary_after f calls))
       = length (filter (\<lambda>e. event_type e = Waifu) (events (summary_after f calls)))
   \<and> (\<exists>ps. events (summary_after f calls) = concat ps
         \<and> list_all2
             (\<lambda>p (rd, txt). prefix p (events (fst (snd (extract_of f rd txt (empty_summary, []))))))
             ps calls)
   \<and> (list_all (\<lambda>out. out = None) (outcomes f calls (empty_summary, []))
        \<longrightarrow> events (summary_after f calls)
            = concat (map (\<lambda>(rd, txt). events (fst (snd (extract_of f rd txt (empty_summary, [])))))
                        calls))
   \<and> prefix (events (summary_after f calls)) (events (summary_after f (calls @ later)))
   \<and> berries_total (summary_after f calls) \<le> berries_total (summary_after f (calls @ later))
   \<and> crystals_total (summary_after f calls) \<le> crystals_total (summary_after f (calls @ later))"
proof -
  have "balanced empty_summary" by (simp add: balanced_def empty_summary_def total_of_def)
  from record_all_balanced[OF this, of f calls "[]"]
  have 1: "berries_total (summary_after f calls) = total_of Berries (events (summary_after f calls))"
    and 2: "crystals_total (summary_after f calls) = total_of Crystals (events (summary_after f calls))"
    and 3: "length (waifus (summary_after f calls))
       = length (filter (\<lambda>e. event_type e = Waifu) (events (summary_after f calls)))"
    by (simp_all add: balanced_def summary_after_def)
  from record_all_fresh[of f calls empty_summary "[]"]
  have 4: "\<exists>ps. events (summary_after f calls) = concat ps
         \<and> list_all2
             (\<lambda>p (rd, txt). prefix p (events (fst (snd (extract_of f rd txt (empty_summary, []))))))
             ps calls"
    by (simp add: summary_after_def empty_summary_def)
  have 5: "list_all (\<lambda>out. out = None) (outcomes f calls (empty_summary, []))
        \<longrightarrow> events (summary_after f calls)
            = concat (map (\<lambda>(rd, txt). events (fst (snd (extract_of f rd txt (empty_summary, [])))))
                        calls)"
  proof
    assume "list_all (\<lambda>out. out = None) (outcomes f calls (empty_summary, []))"
    from record_all_returned[OF this]
    show "events (summary_after f calls)
            = concat (map (\<lambda>(rd, txt). events (fst (snd (extract_of f rd txt (empty_summary, [])))))
                        calls)"
      by (simp add: summary_after_def empty_summary_def)
  qed
  obtain s1 lg1 where st: "record_all f calls (empty_summary, []) = (s1, lg1)"
    by (cases "record_all f calls (empty_summary, [])")
  from record_all_events[of f later s1 lg1]
  have 6: "prefix (events (summary_after f calls)) (events (summary_after f (calls @ later)))"
    by (auto simp: summary_after_def record_all_append st)
  from record_all_mono[of s1 f later lg1]
  have 7: "berries_total (summary_after f calls) \<le> berries_total (summary_after f (calls @ later))"
    and 8: "crystals_total (summary_after f calls) \<le> crystals_total (summary_after f (calls @ later))"
    by (simp_all add: summary_after_def record_all_append st)
  from 1 2 3 4 5 6 7 8 show ?thesis by blast
qed

theorem aggregation_totals_witness:
  "list_all (\<lambda>out. out = None)
     (outcomes B_m [(example_reads, ''You gained 42 Berries''),
                    (example_reads, ''You obtained Sakura Waifu'')] (empty_summary, []))
   \<and> events (summary_after B_m [(example_reads, ''You gained 42 Berries''),
                                (example_reads, ''You obtained Sakura Waifu'')])
     = concat (map (\<lambda>(rd, txt). events (fst (snd (extract_of B_m rd txt (empty_summary, [])))))
                 [(example_reads, ''You gained 42 Berries''),
                  (example_reads, ''You obtained Sakura Waifu'')])"
proof -
  have "list_all (\<lambda>out. out = None)
     (outcomes B_m [(example_reads, ''You gained 42 Berries''),
                    (example_reads, ''You obtained Sakura Waifu'')] (empty_summary, []))"
    by code_simp
  with aggregation_totals[of B_m "[(example_reads, ''You gained 42 Berries''),
                    (example_reads, ''You obtained Sakura Waifu'')]"]
  show ?thesis by blast
qed

text \<open>
  C4 (as the code has it). On a text in which none of the three patterns matches,
  \<open>extract_and_record\<close> (of either file) returns with the summary and the log as they were.
  On other texts it can raise, and \<open>ValueError\<close> is all it raises: \<open>int()\<close> refuses a
  captured amount of more than 4300 digits, and the f-string of the log line refuses a total
  of more than 4300 digits. It returns on every text of at most 4300 characters when both
  totals are non-negative and a number with as many digits as the text has characters can be
  added to each without reaching \<open>10 ^ 4300\<close>.
\<close>

theorem no_match_no_event:
  "(search RE_BERRIES 3 txt = None \<and> search RE_CRYSTALS 2 txt = None \<and> search RE_WAIFU 2 txt = None
      \<longrightarrow> extract_of f rd txt (s, lg) = (None, s, lg))
   \<and> (fst (extract_of f rd txt (s, lg)) = None \<or> fst (extract_of f rd txt (s, lg)) = Some ValueError)
   \<and> (length txt \<le> INT_MAX_STR_DIGITS
        \<and> 0 \<le> berries_total s \<and> berries_total s + 10 ^ length txt \<le> 10 ^ INT_MAX_STR_DIGITS
        \<and> 0 \<le> crystals_total s \<and> crystals_total s + 10 ^ length txt \<le> 10 ^ INT_MAX_STR_DIGITS
      \<longrightarrow> fst (extract_of f rd txt (s, lg)) = None)"
proof -
  obtain lg1 where
    1: "extract_of f rd txt (s, lg) = (fst (recorded rd txt s), snd (recorded rd txt s), lg1)"
    using extract_of_recorded by blast
  have a: "search RE_BERRIES 3 txt = None \<and> search RE_CRYSTALS 2 txt = None \<and> search RE_WAIFU 2 txt = None
      \<longrightarrow> extract_of f rd txt (s, lg) = (None, s, lg)"
    by (cases f) (simp_all add: extract_of_def extract_and_record_def extract_and_record2_def and_then_def)
  have b: "fst (extract_of f rd txt (s, lg)) = None \<or> fst (extract_of f rd txt (s, lg)) = Some ValueError"
    using recorded_outcome[of rd "txt" s] by (simp add: 1)
  have c: "length txt \<le> INT_MAX_STR_DIGITS
        \<and> 0 \<le> berries_total s \<and> berries_total s + 10 ^ length txt \<le> 10 ^ INT_MAX_STR_DIGITS
        \<and> 0 \<le> crystals_total s \<and> crystals_total s + 10 ^ length txt \<le> 10 ^ INT_MAX_STR_DIGITS
      \<longrightarrow> fst (extract_of f rd txt (s, lg)) = None"
    using recorded_returns[of "txt" s rd] by (simp add: 1)
  from a b c show ?thesis by blast
qed

theorem no_match_no_event_witness:
  "search RE_BERRIES 3 ''2024-05-01 10:00:00 [simulated session]: /dice result: (simulated)'' = None
   \<and> search RE_CRYSTALS 2 ''2024-05-01 10:00:00 [simulated session]: /dice result: (simulated)'' = None
   \<and> search RE_WAIFU 2 ''2024-05-01 10:00:00 [simulated session]: /dice result: (simulated)'' = None
   \<and> extract_of B_m2 example_reads ''2024-05-01 10:00:00 [simulated session]: /dice result: (simulated)''
         (empty_summary, [Miner_started]) = (None, empty_summary, [Miner_started])
   \<and> length ''Berries: 7'' \<le> INT_MAX_STR_DIGITS
   \<and> berries_total empty_summary + 10 ^ length ''Berries: 7'' \<le> 10 ^ INT_MAX_STR_DIGITS
   \<and> crystals_total empty_summary + 10 ^ length ''Berries: 7'' \<le> 10 ^ INT_MAX_STR_DIGITS
   \<and> fst (extract_of B_m example_reads ''Berries: 7'' (empty_summary, [])) = None"
proof -
  have b: "search RE_BERRIES 3 ''2024-05-01 10:00:00 [simulated session]: /dice result: (simulated)'' = None"
    by code_simp
  have c: "search RE_CRYSTALS 2 ''2024-05-01 10:00:00 [simulated session]: /dice result: (simulated)'' = None"
    by code_simp
  have w: "search RE_WAIFU 2 ''2024-05-01 10:00:00 [simulated session]: /dice result: (simulated)'' = None"
    by code_simp
  have l: "length ''Berries: 7'' \<le> INT_MAX_STR_DIGITS" by (simp add: INT_MAX_STR_DIGITS_def)
  have "(10::int) ^ length ''Berries: 7'' \<le> 10 ^ INT_MAX_STR_DIGITS"
    by (rule power_increasing) (simp_all add: INT_MAX_STR_DIGITS_def)
  then have r: "berries_total empty_summary + 10 ^ length ''Berries: 7'' \<le> 10 ^ INT_MAX_STR_DIGITS"
    "crystals_total empty_summary + 10 ^ length ''Berries: 7'' \<le> 10 ^ INT_MAX_STR_DIGITS"
    "0 \<le> berries_total empty_summary" "0 \<le> crystals_total empty_summary"
    by (simp_all add: empty_summary_def)
  from b c w
    no_match_no_event[of "''2024-05-01 10:00:00 [simulated session]: /dice result: (simulated)''"
      B_m2 example_reads empty_summary "[Miner_started]"]
  have 1: "extract_of B_m2 example_reads ''2024-05-01 10:00:00 [simulated session]: /dice result: (simulated)''
         (empty_summary, [Miner_started]) = (None, empty_summary, [Miner_started])"
    by blast
  from l r no_match_no_event[of "''Berries: 7''" B_m example_reads empty_summary "[]"]
  have 2: "fst (extract_of B_m example_reads ''Berries: 7'' (empty_summary, [])) = None"
    by blast
  from b c w 1 l r 2 show ?thesis by blast
qed

theorem long_amount_counterexample:
  "fst (extract_and_record example_reads (''Berries: '' @ replicate 4301 (CHR ''1''))
          (empty_summary, [])) = Some ValueError
   \<and> fst (extract_and_record2 example_reads (''Berries: '' @ replicate 4301 (CHR ''1''))
          (empty_summary, [])) = Some ValueError"
proof -
  define ds where "ds = replicate 4301 (CHR ''1'')"
  have d: "digits ds" by (simp add: ds_def digits_def is_digit_def list_all_iff)
  have "length ds = 4301" by (simp add: ds_def)
  with d have i: "py_int ds = Inl ValueError" by (simp add: py_int_amount INT_MAX_STR_DIGITS_def)
  from found_after_colon[OF d] i
  have r: "fst (recorded example_reads (''Berries: '' @ ds) empty_summary) = Some ValueError"
    by (simp add: part_defs)
  from extract_and_record_recorded[of example_reads "''Berries: '' @ ds" empty_summary "[]"]
    extract_and_record2_recorded[of example_reads "''Berries: '' @ ds" empty_summary "[]"] r
  show ?thesis unfolding ds_def by auto
qed

text \<open>
  C5. In \<open>B_m.py\<close>, the text "You gained 42 Berries" adds exactly one event, a berries event of
  amount 42 (and 42 to \<open>berries_total\<close>), on every summary; the call then returns with one
  more log line, unless the new total has more than 4300 digits, in which case the f-string
  of the log line raises \<open>ValueError\<close> after the event is added. The text "You obtained Sakura
  Waifu" adds exactly one event, a waifu event named "Sakura Waifu" (and one entry to
  \<open>waifus\<close>); a text that none of the patterns matches adds no event.
\<close>

theorem extractor_scenarios:
  "extract_and_record rd ''You gained 42 Berries'' (s, lg)
     = (if fits (berries_total s + 42)
        then (None,
              s\<lparr>berries_total := berries_total s + 42,
                events := events s @ [Berries_event (ts_berries rd) 42 ''You gained 42 Berries'']\<rparr>,
              lg @ [Parsed_berries ''42'' (berries_total s + 42)])
        else (Some ValueError,
              s\<lparr>berries_total := berries_total s + 42,
                events := events s @ [Berries_event (ts_berries rd) 42 ''You gained 42 Berries'']\<rparr>,
              lg))
   \<and> extract_and_record rd ''You obtained Sakura Waifu'' (s, lg)
     = (None,
        s\<lparr>waifus := waifus s @ [\<lparr>w_time = ts_waifu rd, w_name = ''Sakura Waifu'',
                                  w_text = ''You obtained Sakura Waifu''\<rparr>],
          events := events s @ [Waifu_event (ts_waifu_event rd) ''Sakura Waifu''
                                  ''You obtained Sakura Waifu'']\<rparr>,
        lg @ [Obtained_waifu ''Sakura Waifu''])
   \<and> (search RE_BERRIES 3 txt = None \<and> search RE_CRYSTALS 2 txt = None \<and> search RE_WAIFU 2 txt = None
        \<longrightarrow> events (fst (snd (extract_and_record rd txt (s, lg)))) = events s)"
proof -
  have b1: "search RE_BERRIES 3 ''You gained 42 Berries'' = Some [None, Some ''42'', None]"
    by code_simp
  have c1: "search RE_CRYSTALS 2 ''You gained 42 Berries'' = None" by code_simp
  have w1: "search RE_WAIFU 2 ''You gained 42 Berries'' = None" by code_simp
  have i1: "py_int ''42'' = Inr 42" by code_simp
  have b2: "search RE_BERRIES 3 ''You obtained Sakura Waifu'' = None" by code_simp
  have c2: "search RE_CRYSTALS 2 ''You obtained Sakura Waifu'' = None" by code_simp
  have w2: "search RE_WAIFU 2 ''You obtained Sakura Waifu'' = Some [None, Some ''Sakura Waifu'']"
    by code_simp
  have 1: "extract_and_record rd ''You gained 42 Berries'' (s, lg)
     = (if fits (berries_total s + 42)
        then (None,
              s\<lparr>berries_total := berries_total s + 42,
                events := events s @ [Berries_event (ts_berries rd) 42 ''You gained 42 Berries'']\<rparr>,
              lg @ [Parsed_berries ''42'' (berries_total s + 42)])
        else (Some ValueError,
              s\<lparr>berries_total := berries_total s + 42,
                events := events s @ [Berries_event (ts_berries rd) 42 ''You gained 42 Berries'']\<rparr>,
              lg))"
    unfolding extract_and_record_def b1 c1 w1 py_str_fits by (simp add: and_then_def i1)
  have 2: "extract_and_record rd ''You obtained Sakura Waifu'' (s, lg)
     = (None,
        s\<lparr>waifus := waifus s @ [\<lparr>w_time = ts_waifu rd, w_name = ''Sakura Waifu'',
                                  w_text = ''You obtained Sakura Waifu''\<rparr>],
          events := events s @ [Waifu_event (ts_waifu_event rd) ''Sakura Waifu''
                                  ''You obtained Sakura Waifu'']\<rparr>,
        lg @ [Obtained_waifu ''Sakura Waifu''])"
    unfolding extract_and_record_def b2 c2 w2 by (simp add: and_then_def)
  have 3: "search RE_BERRIES 3 txt = None \<and> search RE_CRYSTALS 2 txt = None \<and> search RE_WAIFU 2 txt = None
        \<longrightarrow> events (fst (snd (extract_and_record rd txt (s, lg)))) = events s"
    by (simp add: extract_and_record_def and_then_def)
  from 1 2 3 show ?thesis by blast
qed

theorem extractor_scenarios_witness:
  "search RE_BERRIES 3 ''The dice rolled a six.'' = None
   \<and> search RE_CRYSTALS 2 ''The dice rolled a six.'' = None
   \<and> search RE_WAIFU 2 ''The dice rolled a six.'' = None
   \<and> events (fst (snd (extract_and_record example_reads ''The dice rolled a six.'' (empty_summary, []))))
       = events empty_summary
   \<and> fits (berries_total empty_summary + 42)
   \<and> extract_and_record example_reads ''You gained 42 Berries'' (empty_summary, [])
     = (None,
        empty_summary\<lparr>berries_total := berries_total empty_summary + 42,
          events := events empty_summary
             @ [Berries_event (ts_berries example_reads) 42 ''You gained 42 Berries'']\<rparr>,
        [] @ [Parsed_berries ''42'' (berries_total empty_summary + 42)])"
proof -
  have b: "search RE_BERRIES 3 ''The dice rolled a six.'' = None" by code_simp
  have c: "search RE_CRYSTALS 2 ''The dice rolled a six.'' = None" by code_simp
  have w: "search RE_WAIFU 2 ''The dice rolled a six.'' = None" by code_simp
  have f: "fits (berries_total empty_summary + 42)" by code_simp
  note t = extractor_scenarios[of example_reads empty_summary "[]" "''The dice rolled a six.''"]
  from t b c w have 1: "events (fst (snd (extract_and_record example_reads
        ''The dice rolled a six.'' (empty_summary, [])))) = events empty_summary" by blast
  from t f have 2: "extract_and_record example_reads ''You gained 42 Berries'' (empty_summary, [])
     = (None,
        empty_summary\<lparr>berries_total := berries_total empty_summary + 42,
          events := events empty_summary
             @ [Berries_event (ts_berries example_reads) 42 ''You gained 42 Berries'']\<rparr>,
        [] @ [Parsed_berries ''42'' (berries_total empty_summary + 42)])"
    by (simp only: if_True)
  from b c w 1 f 2 show ?thesis by blast
qed


text \<open>
  C6 (as the code has it). In live mode, when the send of a due command raises \<open>RPCError\<close>,
  the error is logged, \<open>last_sent[c]\<close> is set to the clock reading taken after the attempt,
  and the loop goes on. A loop whose sends return or raise \<open>RPCError\<close>, and which nobody
  cancels, never ends by an exception; if nobody calls \<open>stop()\<close> either, it is still
  running after any number of ticks. (\<open>RealClient.send\<close> catches \<open>RPCError\<close> only.)
\<close>

theorem rpc_error_consumes_cooldown:
  assumes "\<not> simulate m" "real_client m" "truthy (bot m)" "last_sent m c = Some t"
    "COMMAND_COOLDOWN \<le> total_seconds (now - t)" "send_result e = Rpc_error" "\<not> cancelled e"
  shows "poll f now e c m
           = ([Dispatch c], None,
              m\<lparr>running := running m \<and> \<not> stop_called e,
                logger := logger m @ [Send_error c],
                last_sent := (last_sent m)(c \<mapsto> clock_after e)\<rparr>)
         \<and> (set (commands m) \<subseteq> dom (last_sent m)
              \<and> (\<forall>k\<in>set ts. \<not> cancelled (nap k) \<and> (\<forall>d\<in>set (commands m). steady (dispatches k d)))
            \<longrightarrow> fst (snd (loop f ts m)) = Exited \<or> fst (snd (loop f ts m)) = Pending)
         \<and> (running m \<and> set (commands m) \<subseteq> dom (last_sent m)
              \<and> (\<forall>k\<in>set ts. calm_tick (commands m) k)
            \<longrightarrow> fst (snd (loop f ts m)) = Pending \<and> running (snd (snd (loop f ts m))))"
proof -
  have 1: "poll f now e c m
           = ([Dispatch c], None,
              m\<lparr>running := running m \<and> \<not> stop_called e,
                logger := logger m @ [Send_error c],
                last_sent := (last_sent m)(c \<mapsto> clock_after e)\<rparr>)"
    using assms by (simp add: poll_def send_def suspend_def and_then_def Let_def)
  have 2: "set (commands m) \<subseteq> dom (last_sent m)
              \<and> (\<forall>k\<in>set ts. \<not> cancelled (nap k) \<and> (\<forall>d\<in>set (commands m). steady (dispatches k d)))
            \<longrightarrow> fst (snd (loop f ts m)) = Exited \<or> fst (snd (loop f ts m)) = Pending"
    using loop_steady[of m ts f] assms(1) by blast
  have 3: "running m \<and> set (commands m) \<subseteq> dom (last_sent m)
              \<and> (\<forall>k\<in>set ts. calm_tick (commands m) k)
            \<longrightarrow> fst (snd (loop f ts m)) = Pending \<and> running (snd (snd (loop f ts m)))"
    using loop_calm[of m ts f] assms(1) by blast
  from 1 2 3 show ?thesis by blast
qed

theorem rpc_error_consumes_cooldown_witness:
  "poll B_m 0 (example_env\<lparr>send_result := Rpc_error\<rparr>) ''/dice'' example_live_miner
     = ([Dispatch ''/dice''], None,
        example_live_miner\<lparr>running := True,
          logger := [Miner_started, Client_started, Send_error ''/dice''],
          last_sent := (last_sent example_live_miner)(''/dice'' \<mapsto> 700000)\<rparr>)
   \<and> fst (snd (loop B_m [example_tick 0 (example_env\<lparr>send_result := Rpc_error\<rparr>),
                         example_tick 1700000 (example_env\<lparr>send_result := Rpc_error\<rparr>)]
                  example_live_miner)) = Pending
   \<and> running (snd (snd (loop B_m [example_tick 0 (example_env\<lparr>send_result := Rpc_error\<rparr>),
                         example_tick 1700000 (example_env\<lparr>send_result := Rpc_error\<rparr>)]
                  example_live_miner)))"
proof -
  define e where "e = example_env\<lparr>send_result := Rpc_error\<rparr>"
  have 1: "\<not> simulate example_live_miner" "real_client example_live_miner"
    "truthy (bot example_live_miner)" "last_sent example_live_miner ''/dice'' = Some datetime_min"
    "running example_live_miner"
    "set (commands example_live_miner) \<subseteq> dom (last_sent example_live_miner)"
    by (simp_all add: example_live_miner_def truthy_def)
  have 2: "COMMAND_COOLDOWN \<le> total_seconds (0 - datetime_min)"
    by (simp add: COMMAND_COOLDOWN_def total_seconds_def datetime_min_def)
  have 3: "send_result e = Rpc_error" "\<not> cancelled e" "\<not> stop_called e" "clock_after e = 700000"
    by (simp_all add: e_def example_env_def)
  have 4: "\<forall>k\<in>set [example_tick 0 e, example_tick 1700000 e].
             calm_tick (commands example_live_miner) k"
    using 3 by (simp add: calm_tick_def calm_def steady_def example_tick_def example_live_miner_def)
  from rpc_error_consumes_cooldown[OF 1(1-4) 2 3(1,2),
      of B_m "[example_tick 0 e, example_tick 1700000 e]"] 1(5,6) 3 4
  show ?thesis unfolding e_def[symmetric] by (simp add: example_live_miner_def)
qed

theorem send_failure_counterexample:
  "fst (snd (poll B_m 0 (example_env\<lparr>send_result := Failed\<rparr>) ''/dice'' example_live_miner))
     = Some Transport_failure
   \<and> last_sent (snd (snd (poll B_m 0 (example_env\<lparr>send_result := Failed\<rparr>) ''/dice''
                            example_live_miner))) ''/dice''
     = Some datetime_min
   \<and> fst (snd (loop B_m [example_tick 0 (example_env\<lparr>send_result := Failed\<rparr>)] example_live_miner))
     = Raised Transport_failure"
proof -
  have due: "COMMAND_COOLDOWN \<le> total_seconds (0 - datetime_min)"
    by (simp add: COMMAND_COOLDOWN_def total_seconds_def datetime_min_def)
  have p: "poll B_m 0 (example_env\<lparr>send_result := Failed\<rparr>) ''/dice'' example_live_miner
      = ([Dispatch ''/dice''], Some Transport_failure, example_live_miner)"
    using due
    by (simp add: poll_def send_def suspend_def and_then_def Let_def truthy_def
        example_live_miner_def example_env_def)
  have "commands example_live_miner = [''/dice'', ''/lever'']" "running example_live_miner"
    by (simp_all add: example_live_miner_def)
  with p have "loop B_m [example_tick 0 (example_env\<lparr>send_result := Failed\<rparr>)] example_live_miner
      = ([Dispatch ''/dice''], Raised Transport_failure, example_live_miner)"
    by (simp add: example_tick_def)
  with p show ?thesis by (simp add: example_live_miner_def)
qed





text \<open>
  C9. On every text, every summary and every logger, with the same clock readings,
  \<open>extract_and_record\<close> of \<open>B_m.py\<close> and \<open>extract_and_record\<close> of \<open>B_m2.py\<close> end the same
  way (both return, or both raise the same exception) and leave the same summary: the same
  totals, the same \<open>waifus\<close>, the same events.
\<close>

theorem extractors_agree:
  "fst (extract_and_record rd txt (s, lg)) = fst (extract_and_record2 rd txt (s, lg2))
   \<and> fst (snd (extract_and_record rd txt (s, lg))) = fst (snd (extract_and_record2 rd txt (s, lg2)))"
proof -
  obtain l1 where "extract_and_record rd txt (s, lg)
      = (fst (recorded rd txt s), snd (recorded rd txt s), l1)"
    using extract_and_record_recorded by blast
  moreover obtain l2 where "extract_and_record2 rd txt (s, lg2)
      = (fst (recorded rd txt s), snd (recorded rd txt s), l2)"
    using extract_and_record2_recorded by blast
  ultimately show ?thesis by simp
qed

text \<open>
  C10. One call of \<open>extract_and_record\<close> (of either file), whether it returns or raises,
  leaves the events that were there in place and appends at most one berries event, at most
  one crystals event and at most one waifu event, in this order.
\<close>

theorem one_event_per_type:
  "events (fst (snd (extract_of f rd txt (s, lg))))
     = events s @ drop (length (events s)) (events (fst (snd (extract_of f rd txt (s, lg)))))
   \<and> map event_type (drop (length (events s)) (events (fst (snd (extract_of f rd txt (s, lg))))))
       \<in> {[], [Berries], [Crystals], [Waifu], [Berries, Crystals], [Berries, Waifu],
           [Crystals, Waifu], [Berries, Crystals, Waifu]}"
proof -
  obtain l where 1: "extract_of f rd txt (s, lg)
      = (fst (recorded rd txt s), snd (recorded rd txt s), l)"
    using extract_of_recorded by blast
  from recorded_events[of s rd "txt"]
  have "take (length (events s)) (events (snd (recorded rd txt s))) = events s" by simp
  with append_take_drop_id[of "length (events s)" "events (snd (recorded rd txt s))"]
  have "events (snd (recorded rd txt s))
      = events s @ drop (length (events s)) (events (snd (recorded rd txt s)))" by simp
  with recorded_types[of s rd "txt"] show ?thesis by (simp add: 1)
qed

end
